theory Spec2Isabelle
  imports Main "HOL-Library.List_Lexorder" "HOL-Library.Char_ord" "HOL-Library.AList"
begin

section \<open>JavaScript strings\<close>

text \<open>
  Text is a list of characters. The functions below are the built-ins of the
  language that the tool handlers call: \<open>String.prototype.indexOf\<close>,
  \<open>includes\<close>, \<open>startsWith\<close> and \<open>replace\<close> with a string pattern.
\<close>

fun indexOf :: "string \<Rightarrow> string \<Rightarrow> nat option" where
  "indexOf [] p = (if p = [] then Some 0 else None)"
| "indexOf (c # cs) p =
     (if take (length p) (c # cs) = p then Some 0 else map_option Suc (indexOf cs p))"

definition str_includes :: "string \<Rightarrow> string \<Rightarrow> bool" where
  "str_includes s p = (indexOf s p \<noteq> None)"

definition startsWith :: "string \<Rightarrow> string \<Rightarrow> bool" where
  "startsWith s p = (take (length p) s = p)"

text \<open>
  \<open>GetSubstitution\<close> of the language standard for a string pattern (no captures):
  in the replacement text \<open>$$\<close> stands for a dollar sign, \<open>$&\<close> for the matched
  text, \<open>$`\<close> for the text before the match and \<open>$'\<close> for the text after it;
  every other character, a dollar sign before anything else included, is copied.
\<close>

fun GetSubstitution :: "string \<Rightarrow> string \<Rightarrow> string \<Rightarrow> string \<Rightarrow> string" where
  "GetSubstitution matched preceding following [] = []"
| "GetSubstitution matched preceding following [c] = [c]"
| "GetSubstitution matched preceding following (c # d # r) =
     (if c = CHR ''$'' \<and> d = CHR ''$'' then CHR ''$'' # GetSubstitution matched preceding following r
      else if c = CHR ''$'' \<and> d = CHR ''&'' then matched @ GetSubstitution matched preceding following r
      else if c = CHR ''$'' \<and> d = CHR 0x60 then preceding @ GetSubstitution matched preceding following r
      else if c = CHR ''$'' \<and> d = CHR 0x27 then following @ GetSubstitution matched preceding following r
      else c # GetSubstitution matched preceding following (d # r))"

text \<open>\<open>s.replace(p, r)\<close> with a string \<open>p\<close>: only the first occurrence is replaced.\<close>

definition replace :: "string \<Rightarrow> string \<Rightarrow> string \<Rightarrow> string" where
  "replace s p r =
     (case indexOf s p of
        None \<Rightarrow> s
      | Some i \<Rightarrow>
          take i s
          @ GetSubstitution p (take i s) (drop (i + length p) s) r
          @ drop (i + length p) s)"

text \<open>\<open>s.split('\\n').length\<close>: one more than the number of line feeds.\<close>

definition line_count :: "string \<Rightarrow> nat" where
  "line_count s = Suc (length (filter (\<lambda>c. c = CHR 0x0A) s))"

section \<open>The server's workspace and its \<open>editFile\<close> handler\<close>

text \<open>
  A path of the file system holds nothing, a regular file with its text, or a
  directory. \<open>fs.readFileSync\<close> throws on a missing path and on a directory;
  \<open>fs.writeFileSync\<close> throws on a directory. The message of the exception is
  what the handlers report.
\<close>

datatype fobj = FileObj string | DirObj

type_synonym files = "string \<rightharpoonup> fobj"

definition existsSync :: "files \<Rightarrow> string \<Rightarrow> bool" where
  "existsSync fs p = (fs p \<noteq> None)"

definition readFileSync :: "files \<Rightarrow> string \<Rightarrow> string + string" where
  "readFileSync fs p =
     (case fs p of
        None \<Rightarrow> Inl ''ENOENT: no such file or directory''
      | Some DirObj \<Rightarrow> Inl ''EISDIR: illegal operation on a directory''
      | Some (FileObj c) \<Rightarrow> Inr c)"

definition writeFileSync :: "files \<Rightarrow> string \<Rightarrow> string \<Rightarrow> string + files" where
  "writeFileSync fs p c =
     (case fs p of
        Some DirObj \<Rightarrow> Inl ''EISDIR: illegal operation on a directory''
      | _ \<Rightarrow> Inr (fs(p \<mapsto> FileObj c)))"

record toolCallLog =
  tl_name :: string
  tl_status :: string
  tl_message :: "string option"

record sessionStats =
  linesWritten :: nat
  filesModified :: "string set"
  filesRead :: "string set"
  toolCalls :: "toolCallLog list"

text \<open>A call of \<open>execSync\<close>: the command, the working directory and the timeout.\<close>

record exec_call =
  ex_command :: string
  ex_cwd :: string
  ex_timeout :: nat

text \<open>
  What the server process holds and acts on: the files, the session statistics (a global
  of the module) and the shell commands it has executed.
\<close>

record server =
  files :: files
  stats :: sessionStats
  executed :: "exec_call list"

text \<open>
  What a handler returns: \<open>{ success: false, error, hint }\<close> or
  \<open>{ success: true, path, message }\<close>. The message of a successful edit is built
  from the base name of the path and two line counts, which are kept as such.
\<close>

datatype edit_result =
    EditError string "string option"
  | EditDone string nat nat

definition editFile :: "server \<Rightarrow> string \<Rightarrow> string \<Rightarrow> string \<Rightarrow> edit_result \<times> server" where
  "editFile sv filePath oldText newText =
     (if \<not> existsSync (files sv) filePath then (EditError ''File does not exist'' None, sv)
      else case readFileSync (files sv) filePath of
        Inl e \<Rightarrow> (EditError e None, sv)
      | Inr content \<Rightarrow>
          if \<not> str_includes content oldText then
            (EditError ''Old text not found in file. Make sure to use exact text including whitespace.''
               (Some ''Try reading the file first to get exact content''), sv)
          else
            (case writeFileSync (files sv) filePath (replace content oldText newText) of
               Inl e \<Rightarrow> (EditError e None, sv)
             | Inr fs' \<Rightarrow>
                 (EditDone filePath (line_count oldText) (line_count newText),
                  sv\<lparr>files := fs',
                     stats := (stats sv)\<lparr>
                       filesModified := insert filePath (filesModified (stats sv)),
                       linesWritten := linesWritten (stats sv) + line_count newText\<rparr>\<rparr>)))"

section \<open>The extension's workspace and its \<open>search_replace\<close> tool\<close>

text \<open>
  The extension reads and writes through \<open>vscode.workspace.fs\<close>, whose calls throw
  on failure. A tool that throws is caught by the agent loop, which turns the exception
  into the result \<open>{ error: e.message }\<close>. The messages of the source are Turkish
  sentences; they are named here by what they say.
\<close>

datatype err_msg =
    NoOpenFolder          \<comment> \<open>thrown when no workspace folder is open\<close>
  | OldTextNotFound       \<comment> \<open>the error of \<open>search_replace\<close> when the old text is absent\<close>
  | Rejected              \<comment> \<open>the error of a terminal command the user rejected\<close>
  | NoFolder              \<comment> \<open>the error of a terminal command with no workspace folder\<close>
  | InvalidArguments      \<comment> \<open>the arguments of a tool call are not JSON\<close>
  | UnknownTool           \<comment> \<open>no tool of that name\<close>
  | NullArguments         \<comment> \<open>thrown when a field of arguments that are \<open>null\<close> is read\<close>
  | FsError string        \<comment> \<open>thrown by \<open>vscode.workspace.fs\<close>\<close>

definition readFile_fs :: "files \<Rightarrow> string \<Rightarrow> err_msg + string" where
  "readFile_fs fs p =
     (case fs p of
        None \<Rightarrow> Inl (FsError ''FileNotFound'')
      | Some DirObj \<Rightarrow> Inl (FsError ''FileIsADirectory'')
      | Some (FileObj c) \<Rightarrow> Inr c)"

definition writeFile_fs :: "files \<Rightarrow> string \<Rightarrow> string \<Rightarrow> err_msg + files" where
  "writeFile_fs fs p c =
     (case fs p of
        Some DirObj \<Rightarrow> Inl (FsError ''FileIsADirectory'')
      | _ \<Rightarrow> Inr (fs(p \<mapsto> FileObj c)))"

text \<open>
  A tool returns a result object or throws. \<open>path.resolve\<close> is the platform's and is
  a parameter of every tool that resolves a path against the workspace folder.
\<close>

datatype search_replace_result =
    SRError err_msg       \<comment> \<open>\<open>{ error }\<close>, returned\<close>
  | SRSuccess             \<comment> \<open>\<open>{ success: true }\<close>\<close>
  | SRThrown err_msg      \<comment> \<open>an exception, for the agent loop to catch\<close>

definition searchReplace ::
  "(string \<Rightarrow> string \<Rightarrow> string) \<Rightarrow> string list \<Rightarrow> files \<Rightarrow> string \<Rightarrow> string \<Rightarrow> string
     \<Rightarrow> search_replace_result \<times> files" where
  "searchReplace path_resolve workspaceFolders fs fpath oldStr newStr =
     (case workspaceFolders of
        [] \<Rightarrow> (SRThrown NoOpenFolder, fs)
      | root # _ \<Rightarrow>
          (case readFile_fs fs (path_resolve root fpath) of
             Inl e \<Rightarrow> (SRThrown e, fs)
           | Inr content \<Rightarrow>
               if \<not> str_includes content oldStr then (SRError OldTextNotFound, fs)
               else
                 (case writeFile_fs fs (path_resolve root fpath) (replace content oldStr newStr) of
                    Inl e \<Rightarrow> (SRThrown e, fs)
                  | Inr fs' \<Rightarrow> (SRSuccess, fs'))))"

section \<open>Listing a directory\<close>

subsection \<open>The server's \<open>listFiles\<close> handler\<close>

text \<open>
  The directory tree the handler walks. \<open>fs.readdirSync\<close> returns the names of a
  readable directory in the order of the association list and throws on anything
  else; \<open>fs.statSync\<close> throws on a child that cannot be examined.
\<close>

datatype fsnode =
    NodeFile
  | NodeDir "(string \<times> fsnode) list"
  | NodeDirNoRead       \<comment> \<open>a directory whose \<open>readdirSync\<close> throws\<close>
  | NodeNoStat          \<comment> \<open>a child whose \<open>statSync\<close> throws\<close>

datatype etype = Folder | File

datatype entry = Entry (name: string) (path: string) (etype: etype) (children: "entry list option")

definition ignored_names :: "string list" where
  "ignored_names = [''node_modules'', ''.git'', ''.next'', ''dist'', ''build'', ''.cache'']"

text \<open>
  \<open>Array.prototype.sort\<close> with a comparison function: for a consistent comparison the
  result is the stable sorted arrangement, which insertion from the right computes.
\<close>

fun insert_by :: "('a \<Rightarrow> 'a \<Rightarrow> int) \<Rightarrow> 'a \<Rightarrow> 'a list \<Rightarrow> 'a list" where
  "insert_by cmp x [] = [x]"
| "insert_by cmp x (y # ys) = (if cmp x y \<le> 0 then x # y # ys else y # insert_by cmp x ys)"

definition array_sort :: "('a \<Rightarrow> 'a \<Rightarrow> int) \<Rightarrow> 'a list \<Rightarrow> 'a list" where
  "array_sort cmp xs = foldr (insert_by cmp) xs []"

text \<open>
  The comparison of \<open>listFiles\<close>; \<open>localeCompare\<close> is the platform's collation
  and is a parameter.
\<close>

definition compare_entries :: "(string \<Rightarrow> string \<Rightarrow> int) \<Rightarrow> entry \<Rightarrow> entry \<Rightarrow> int" where
  "compare_entries localeCompare a b =
     (if etype a = etype b then localeCompare (name a) (name b)
      else if etype a = Folder then - 1 else 1)"

text \<open>
  One child of the loop body: \<open>None\<close> when the child is skipped (an ignored name, or
  an exception inside the \<open>try\<close>), otherwise its entry. The listing of a
  subdirectory is passed in, \<open>None\<close> when computing it threw.
\<close>

function listDir ::
  "(string \<Rightarrow> string \<Rightarrow> string) \<Rightarrow> (string \<Rightarrow> string \<Rightarrow> int) \<Rightarrow> bool \<Rightarrow> nat \<Rightarrow> string
     \<Rightarrow> (string \<times> fsnode) list \<Rightarrow> entry list" where
  "listDir path_join localeCompare recursive level dir items =
     (if level > 2 then []
      else array_sort (compare_entries localeCompare)
        (List.map_filter
           (\<lambda>(item, node).
              if item \<in> set ignored_names then None
              else (case node of
                  NodeNoStat \<Rightarrow> None
                | NodeFile \<Rightarrow> Some (Entry item (path_join dir item) File None)
                | NodeDirNoRead \<Rightarrow>
                    if recursive then
                      (if level + 1 > 2 then Some (Entry item (path_join dir item) Folder (Some []))
                       else None)
                    else Some (Entry item (path_join dir item) Folder None)
                | NodeDir sub \<Rightarrow>
                    Some (Entry item (path_join dir item) Folder
                      (if recursive
                       then Some (listDir path_join localeCompare recursive (level + 1)
                                    (path_join dir item) sub)
                       else None))))
           items))"
  by pat_completeness auto
termination
  by (relation "measure (\<lambda>(j, lc, r, level, dir, items). 3 - level)") auto

datatype list_result =
    ListError string
  | ListOk "entry list" nat       \<comment> \<open>\<open>{ success: true, files, count }\<close>\<close>

definition listFiles ::
  "(string \<Rightarrow> string \<Rightarrow> string) \<Rightarrow> (string \<Rightarrow> string \<Rightarrow> int) \<Rightarrow> string \<Rightarrow> bool \<Rightarrow> fsnode
     \<Rightarrow> list_result" where
  "listFiles path_join localeCompare dirPath recursive node =
     (case node of
        NodeDir items \<Rightarrow>
          (let files = listDir path_join localeCompare recursive 0 dirPath items
           in ListOk files (length files))
      | NodeFile \<Rightarrow> ListError ''ENOTDIR: not a directory''
      | NodeDirNoRead \<Rightarrow> ListError ''EACCES: permission denied''
      | NodeNoStat \<Rightarrow> ListError ''ENOENT: no such file or directory'')"

text \<open>Every list of entries of a listing: the listing itself and each list of children.\<close>

fun levels_below :: "entry \<Rightarrow> entry list list" where
  "levels_below (Entry n p t None) = []"
| "levels_below (Entry n p t (Some es)) = es # concat (map levels_below es)"

definition levels :: "entry list \<Rightarrow> entry list list" where
  "levels es = es # concat (map levels_below es)"

subsection \<open>The extension's \<open>list_dir\<close> tool\<close>

datatype file_type = FT_Unknown | FT_File | FT_Directory | FT_SymbolicLink

datatype list_dir_result =
    LDEntries "(string \<times> string) list"      \<comment> \<open>\<open>{ entries: [{ name, type }] }\<close>\<close>
  | LDThrown err_msg

definition listDir_ext ::
  "(string \<Rightarrow> string \<Rightarrow> string) \<Rightarrow> (string \<Rightarrow> err_msg + (string \<times> file_type) list) \<Rightarrow> string list
     \<Rightarrow> string \<Rightarrow> list_dir_result" where
  "listDir_ext path_resolve readDirectory workspaceFolders dpath =
     (case workspaceFolders of
        [] \<Rightarrow> LDThrown NoOpenFolder
      | root # _ \<Rightarrow>
          (case readDirectory (path_resolve root (if dpath = [] then ''.'' else dpath)) of
             Inl e \<Rightarrow> LDThrown e
           | Inr entries \<Rightarrow>
               LDEntries (map (\<lambda>(name, type). (name, if type = FT_Directory then ''dir'' else ''file''))
                            entries)))"

text \<open>
  What the listing is checked against, for one list of entries: no ignored name, no file
  before a folder, and each of the two groups in the order of \<open>localeCompare\<close>.
\<close>

definition level_ok :: "(string \<Rightarrow> string \<Rightarrow> int) \<Rightarrow> entry list \<Rightarrow> bool" where
  "level_ok lc es \<longleftrightarrow>
     (\<forall>e\<in>set es. name e \<notin> set ignored_names) \<and>
     sorted_wrt (\<lambda>a b. (etype a = File \<longrightarrow> etype b = File) \<and>
                        (etype a = etype b \<longrightarrow> lc (name a) (name b) \<le> 0)) es"

declare listDir.simps [simp del]

section \<open>Decoding the event stream\<close>

text \<open>
  \<open>buffer.split("\n")\<close>: the pieces between line feeds, the last one being what
  follows the last line feed (empty when the text ends with one).
\<close>

fun split_lines :: "string \<Rightarrow> string list" where
  "split_lines [] = [[]]"
| "split_lines (c # cs) =
     (if c = CHR 0x0A then [] # split_lines cs
      else (case split_lines cs of
              [] \<Rightarrow> [[c]]
            | l # ls \<Rightarrow> (c # l) # ls))"

text \<open>\<open>trim\<close> removes white space and line terminators at both ends.\<close>

definition is_space :: "char \<Rightarrow> bool" where
  "is_space c \<longleftrightarrow>
     c = CHR 0x09 \<or> c = CHR 0x0A \<or> c = CHR 0x0B \<or> c = CHR 0x0C \<or> c = CHR 0x0D \<or>
     c = CHR 0x20 \<or> c = CHR 0xA0"

definition trim :: "string \<Rightarrow> string" where
  "trim s = rev (dropWhile is_space (rev (dropWhile is_space s)))"

text \<open>
  One parsed event of the model's stream, as far as the loops read it:
  \<open>choices[0].delta.content\<close> (empty when absent or falsy) and
  \<open>choices[0].delta.tool_calls\<close> (empty when absent), each tool-call fragment with its
  \<open>index\<close>, its \<open>id\<close> (\<open>None\<close> when undefined), and the fragments of
  \<open>function.name\<close> and \<open>function.arguments\<close> (empty when absent or falsy).
\<close>

record tc_delta =
  tc_index :: nat
  tc_id :: "string option"
  tc_name :: string
  tc_arguments :: string

record delta =
  d_content :: string
  d_tool_calls :: "tc_delta list"

text \<open>What the extension posts to its webview.\<close>

datatype security_mode = Secure | Full

datatype ui_msg =
    M_startStreaming
  | M_content string
  | M_tool_call string
  | M_tool_executing string
  | M_approval string string                 \<comment> \<open>\<open>id\<close>, \<open>cmd\<close>\<close>
  | M_terminal_out string string             \<comment> \<open>\<open>data\<close>, \<open>approvalId\<close>\<close>
  | M_edit_pending string                    \<comment> \<open>\<open>file\<close>\<close>
  | M_edit_approved string
  | M_edit_rejected string
  | M_all_edits_approved
  | M_all_edits_rejected
  | M_securityModeChanged security_mode
  | M_done
  | M_error string

text \<open>The accumulated tool call at one index of the extension's \<open>toolCalls\<close> array.\<close>

record tool_acc =
  acc_id :: "string option"
  acc_name :: string
  acc_arguments :: string

text \<open>
  \<open>a[i] = v\<close> on an array: an index past the end extends the array, leaving holes.
\<close>

definition array_set :: "'a option list \<Rightarrow> nat \<Rightarrow> 'a \<Rightarrow> 'a option list" where
  "array_set xs i v =
     (if i < length xs then xs[i := Some v]
      else xs @ replicate (i - length xs) None @ [Some v])"

definition array_get :: "'a option list \<Rightarrow> nat \<Rightarrow> 'a option" where
  "array_get xs i = (if i < length xs then xs ! i else None)"

text \<open>
  What one round accumulates from the stream, besides the carry-over buffer: the text so
  far, the tool calls so far, and the messages posted to the webview.
\<close>

record decoder =
  fullContent :: string
  toolCalls_acc :: "tool_acc option list"
  posted :: "ui_msg list"

definition truthy :: "string option \<Rightarrow> bool" where
  "truthy v = (case v of None \<Rightarrow> False | Some s \<Rightarrow> s \<noteq> [])"

definition apply_tool_call :: "decoder \<Rightarrow> tc_delta \<Rightarrow> decoder" where
  "apply_tool_call st tc =
     (let index = tc_index tc;
          cur = (case array_get (toolCalls_acc st) index of
                   None \<Rightarrow> \<lparr>acc_id = tc_id tc, acc_name = [], acc_arguments = []\<rparr>
                 | Some a \<Rightarrow> a);
          cur1 = (if truthy (tc_id tc) then cur\<lparr>acc_id := tc_id tc\<rparr> else cur);
          cur2 = (if tc_name tc \<noteq> [] then cur1\<lparr>acc_name := acc_name cur1 @ tc_name tc\<rparr> else cur1);
          posted1 = (if tc_name tc \<noteq> [] then posted st @ [M_tool_call (acc_name cur2)]
                     else posted st);
          cur3 = (if tc_arguments tc \<noteq> []
                  then cur2\<lparr>acc_arguments := acc_arguments cur2 @ tc_arguments tc\<rparr> else cur2)
      in st\<lparr>toolCalls_acc := array_set (toolCalls_acc st) index cur3, posted := posted1\<rparr>)"

definition apply_delta :: "decoder \<Rightarrow> delta \<Rightarrow> decoder" where
  "apply_delta st d =
     (let st1 = (if d_content d \<noteq> []
                 then st\<lparr>fullContent := fullContent st @ d_content d,
                         posted := posted st @ [M_content (d_content d)]\<rparr>
                 else st)
      in foldl apply_tool_call st1 (d_tool_calls d))"

text \<open>
  The loop over the complete lines of one read. \<open>parse_delta\<close> stands for
  \<open>JSON.parse\<close> followed by the reading of \<open>choices[0].delta\<close>; it is \<open>None\<close> where
  that throws, which the \<open>catch\<close> of the loop swallows. The sentinel line ends the
  loop over the lines of this read.
\<close>

fun process_lines :: "(string \<Rightarrow> delta option) \<Rightarrow> string list \<Rightarrow> decoder \<Rightarrow> decoder" where
  "process_lines parse_delta [] st = st"
| "process_lines parse_delta (line # rest) st =
     (let cleanLine = trim line in
      if cleanLine = [] \<or> \<not> startsWith cleanLine ''data: '' then process_lines parse_delta rest st
      else
        (let dataStr = trim (replace cleanLine ''data: '' []) in
         if dataStr = ''[DONE]'' then st
         else (case parse_delta dataStr of
                 None \<Rightarrow> process_lines parse_delta rest st
               | Some d \<Rightarrow> process_lines parse_delta rest (apply_delta st d))))"

text \<open>
  One read of the response body: the chunk, already decoded to text, is appended to the
  buffer; the last piece stays in the buffer and the complete lines are processed.
\<close>

definition feed :: "(string \<Rightarrow> delta option) \<Rightarrow> string \<times> decoder \<Rightarrow> string \<Rightarrow> string \<times> decoder" where
  "feed parse_delta st chunk =
     (let lines = split_lines (fst st @ chunk)
      in (last lines, process_lines parse_delta (butlast lines) (snd st)))"

definition decode_stream ::
  "(string \<Rightarrow> delta option) \<Rightarrow> ui_msg list \<Rightarrow> string list \<Rightarrow> string \<times> decoder" where
  "decode_stream parse_delta posted0 chunks =
     foldl (feed parse_delta)
       ([], \<lparr>fullContent = [], toolCalls_acc = [], posted = posted0\<rparr>) chunks"

text \<open>
  What a line is to the loop: skipped, the sentinel, or an event. A stream is complete
  when no event follows its sentinel line.
\<close>

datatype line_kind = Skipped | Sentinel | Event delta

definition classify :: "(string \<Rightarrow> delta option) \<Rightarrow> string \<Rightarrow> line_kind" where
  "classify parse_delta line =
     (let cleanLine = trim line in
      if cleanLine = [] \<or> \<not> startsWith cleanLine ''data: '' then Skipped
      else
        (let dataStr = trim (replace cleanLine ''data: '' []) in
         if dataStr = ''[DONE]'' then Sentinel
         else (case parse_delta dataStr of None \<Rightarrow> Skipped | Some d \<Rightarrow> Event d)))"

definition is_event :: "line_kind \<Rightarrow> bool" where
  "is_event k = (case k of Event d \<Rightarrow> True | _ \<Rightarrow> False)"

fun no_event_after_sentinel :: "(string \<Rightarrow> delta option) \<Rightarrow> string list \<Rightarrow> bool" where
  "no_event_after_sentinel parse_delta [] = True"
| "no_event_after_sentinel parse_delta (l # ls) =
     (if classify parse_delta l = Sentinel
      then list_all (\<lambda>l'. \<not> is_event (classify parse_delta l')) ls
      else no_event_after_sentinel parse_delta ls)"

definition complete_stream :: "(string \<Rightarrow> delta option) \<Rightarrow> string \<Rightarrow> bool" where
  "complete_stream parse_delta s = no_event_after_sentinel parse_delta (butlast (split_lines s))"

subsection \<open>The web client's reader of the server's events\<close>

text \<open>
  \<open>streamAgent\<close> passes every parsed event to \<open>onChunk\<close>; \<open>parse\<close> is
  \<open>JSON.parse\<close>, \<open>None\<close> where it throws. The state is the buffer and the events
  passed on so far.
\<close>

fun client_lines :: "(string \<Rightarrow> 'e option) \<Rightarrow> string list \<Rightarrow> 'e list \<Rightarrow> 'e list" where
  "client_lines parse [] seen = seen"
| "client_lines parse (line # rest) seen =
     (if startsWith line ''data: '' then
        (case parse (drop 6 line) of
           None \<Rightarrow> client_lines parse rest seen
         | Some data \<Rightarrow> client_lines parse rest (seen @ [data]))
      else client_lines parse rest seen)"

definition client_feed :: "(string \<Rightarrow> 'e option) \<Rightarrow> string \<times> 'e list \<Rightarrow> string \<Rightarrow> string \<times> 'e list" where
  "client_feed parse st chunk =
     (let lines = split_lines (fst st @ chunk)
      in (last lines, client_lines parse (butlast lines) (snd st)))"

definition streamAgent :: "(string \<Rightarrow> 'e option) \<Rightarrow> string list \<Rightarrow> string \<times> 'e list" where
  "streamAgent parse chunks = foldl (client_feed parse) ([], []) chunks"

section \<open>The extension host\<close>

text \<open>
  The state of the provider object and of what it acts on: the open workspace folders
  (none when \<open>vscode.workspace.workspaceFolders\<close> is undefined), the files, the
  security mode, the two tables \<open>_pendingEdits\<close> and \<open>_pendingApprovals\<close> (JavaScript
  maps, kept in insertion order), the number of approvals asked for so far, and the log
  of what the provider did to the outside: messages posted to the webview and processes
  spawned.
\<close>

datatype event =
    Post ui_msg
  | Spawn string string                     \<comment> \<open>\<open>cp.spawn\<close> of a shell with the command, in \<open>cwd\<close>\<close>

text \<open>
  A pending edit holds the proposed content and the counts of added and removed lines
  shown on its card (the language label and the extension, derived from the path for
  display only, are left out).
\<close>

record pending_edit =
  pe_newContent :: string
  pe_added :: nat
  pe_removed :: nat

text \<open>
  A pending approval holds the resolver of the promise a terminal command waits on: the
  command it will run and the position, in the batch of tool calls, of the call that
  waits.
\<close>

record pending_call =
  pa_command :: string
  pa_slot :: nat

record ext =
  workspaceFolders :: "string list"
  xfiles :: files
  securityMode :: security_mode
  pendingEdits :: "(string \<times> pending_edit) list"
  pendingApprovals :: "(string \<times> pending_call) list"
  approvalsAsked :: nat
  log :: "event list"

text \<open>
  The constructor: the security mode is the persisted one, \<open>secure\<close> when none is
  persisted, and both tables are empty.
\<close>

definition new_provider :: "security_mode option \<Rightarrow> string list \<Rightarrow> files \<Rightarrow> ext" where
  "new_provider persisted folders fs =
     \<lparr>workspaceFolders = folders, xfiles = fs,
      securityMode = (case persisted of None \<Rightarrow> Secure | Some m \<Rightarrow> m),
      pendingEdits = [], pendingApprovals = [], approvalsAsked = 0, log = []\<rparr>"

subsection \<open>\<open>edit_file\<close> and the pending edits\<close>

datatype edit_file_result =
    EF_Success string          \<comment> \<open>\<open>{ status: 'success', file }\<close>\<close>
  | EF_Pending string          \<comment> \<open>\<open>{ status: 'pending', file }\<close>\<close>
  | EF_Thrown err_msg

definition editFile_ext ::
  "(string \<Rightarrow> string \<Rightarrow> string) \<Rightarrow> ext \<Rightarrow> string \<Rightarrow> string \<Rightarrow> edit_file_result \<times> ext" where
  "editFile_ext path_resolve st fpath codeEdit =
     (case workspaceFolders st of
        [] \<Rightarrow> (EF_Thrown NoOpenFolder, st)
      | root # _ \<Rightarrow>
          (let uri = path_resolve root fpath in
           if securityMode st = Full then
             (case writeFile_fs (xfiles st) uri codeEdit of
                Inl e \<Rightarrow> (EF_Thrown e, st)
              | Inr fs' \<Rightarrow> (EF_Success fpath, st\<lparr>xfiles := fs'\<rparr>))
           else
             (let oldLineCount = (case readFile_fs (xfiles st) uri of
                                    Inl e \<Rightarrow> 0
                                  | Inr current \<Rightarrow> line_count current);
                  newLineCount = line_count codeEdit
              in (EF_Pending uri,
                  st\<lparr>pendingEdits :=
                        AList.update fpath
                          \<lparr>pe_newContent = codeEdit,
                           pe_added = newLineCount - oldLineCount,
                           pe_removed = oldLineCount - newLineCount\<rparr>
                          (pendingEdits st),
                      log := log st @ [Post (M_edit_pending uri)]\<rparr>))))"

text \<open>
  The handlers of the webview's messages about pending edits. \<open>Uri_file\<close> is
  \<open>vscode.Uri.file\<close>, the platform's. A write that throws leaves the handler before
  the table is touched.
\<close>

definition writePendingEdit :: "(string \<Rightarrow> string) \<Rightarrow> ext \<Rightarrow> string \<Rightarrow> ext" where
  "writePendingEdit Uri_file st filePath =
     (case map_of (pendingEdits st) filePath of
        None \<Rightarrow> st
      | Some pending \<Rightarrow>
          (case writeFile_fs (xfiles st) (Uri_file filePath) (pe_newContent pending) of
             Inl e \<Rightarrow> st
           | Inr fs' \<Rightarrow>
               st\<lparr>xfiles := fs',
                  pendingEdits := AList.delete filePath (pendingEdits st),
                  log := log st @ [Post (M_edit_approved filePath)]\<rparr>))"

definition rejectPendingEdit :: "ext \<Rightarrow> string \<Rightarrow> ext" where
  "rejectPendingEdit st filePath =
     st\<lparr>pendingEdits := AList.delete filePath (pendingEdits st),
        log := log st @ [Post (M_edit_rejected filePath)]\<rparr>"

fun write_all :: "(string \<Rightarrow> string) \<Rightarrow> files \<Rightarrow> (string \<times> pending_edit) list \<Rightarrow> err_msg + files" where
  "write_all Uri_file fs [] = Inr fs"
| "write_all Uri_file fs ((f, p) # rest) =
     (case writeFile_fs fs (Uri_file f) (pe_newContent p) of
        Inl e \<Rightarrow> Inl e
      | Inr fs' \<Rightarrow> write_all Uri_file fs' rest)"

text \<open>
  \<open>_approveAllEdits\<close> writes every pending edit in the order of the table; when a
  write throws, the writes before it stay and the table is not cleared.
\<close>

fun writes_before_failure :: "(string \<Rightarrow> string) \<Rightarrow> files \<Rightarrow> (string \<times> pending_edit) list \<Rightarrow> files" where
  "writes_before_failure Uri_file fs [] = fs"
| "writes_before_failure Uri_file fs ((f, p) # rest) =
     (case writeFile_fs fs (Uri_file f) (pe_newContent p) of
        Inl e \<Rightarrow> fs
      | Inr fs' \<Rightarrow> writes_before_failure Uri_file fs' rest)"

definition approveAllEdits :: "(string \<Rightarrow> string) \<Rightarrow> ext \<Rightarrow> ext" where
  "approveAllEdits Uri_file st =
     (case write_all Uri_file (xfiles st) (pendingEdits st) of
        Inl e \<Rightarrow> st\<lparr>xfiles := writes_before_failure Uri_file (xfiles st) (pendingEdits st)\<rparr>
      | Inr fs' \<Rightarrow>
          st\<lparr>xfiles := fs', pendingEdits := [], log := log st @ [Post M_all_edits_approved]\<rparr>)"

definition rejectAllEdits :: "ext \<Rightarrow> ext" where
  "rejectAllEdits st = st\<lparr>pendingEdits := [], log := log st @ [Post M_all_edits_rejected]\<rparr>"

subsection \<open>\<open>run_terminal_cmd\<close> and the pending approvals\<close>

text \<open>
  What a spawned process does is the operating system's: it writes chunks of output and
  closes with an exit code (none when killed by a signal), or fails to start.
\<close>

datatype proc_outcome =
    Closed "string list" "int option"
  | SpawnFailed string

datatype term_result =
    TR_Error err_msg                      \<comment> \<open>\<open>{ error }\<close>\<close>
  | TR_Output string bool "int option"    \<comment> \<open>\<open>{ output, success, exitCode }\<close>\<close>
  | TR_ProcError string                   \<comment> \<open>\<open>{ output: err.message, error: true }\<close>\<close>

definition proc_result :: "proc_outcome \<Rightarrow> term_result" where
  "proc_result out =
     (case out of
        Closed chunks code \<Rightarrow> TR_Output (concat chunks) (code = Some 0) code
      | SpawnFailed m \<Rightarrow> TR_ProcError m)"

definition proc_chunks :: "proc_outcome \<Rightarrow> string list" where
  "proc_chunks out = (case out of Closed chunks code \<Rightarrow> chunks | SpawnFailed m \<Rightarrow> [])"

text \<open>
  The part of \<open>_runTerminalCommand\<close> that runs when the tool is called. In autopilot
  mode it spawns at once and has its result; otherwise it posts the approval card under
  the identifier \<open>Date.now().toString()\<close>, stores its resolver under that identifier and
  waits. \<open>clock\<close> gives the identifier of each request for approval, by its number.
\<close>

definition runTerminalCommand ::
  "(string \<Rightarrow> string \<Rightarrow> proc_outcome) \<Rightarrow> (nat \<Rightarrow> string) \<Rightarrow> nat \<Rightarrow> ext \<Rightarrow> string
     \<Rightarrow> term_result option \<times> ext" where
  "runTerminalCommand os clock slot st command =
     (if securityMode st = Full then
        (case workspaceFolders st of
           [] \<Rightarrow> (Some (TR_Error NoFolder), st)
         | cwd # _ \<Rightarrow>
             (Some (proc_result (os command cwd)), st\<lparr>log := log st @ [Spawn command cwd]\<rparr>))
      else
        (let approvalId = clock (approvalsAsked st) in
         (None,
          st\<lparr>log := log st @ [Post (M_approval approvalId command)],
             pendingApprovals :=
               AList.update approvalId \<lparr>pa_command = command, pa_slot = slot\<rparr> (pendingApprovals st),
             approvalsAsked := Suc (approvalsAsked st)\<rparr>)))"

text \<open>
  The handler of the webview's \<open>terminalApproval\<close> message: the stored resolver, if
  any, is called with the choice and removed, and the command that waited goes on. The
  handler gives the position of the call that went on and its result.
\<close>

definition terminalApproval ::
  "(string \<Rightarrow> string \<Rightarrow> proc_outcome) \<Rightarrow> ext \<Rightarrow> string \<Rightarrow> bool \<Rightarrow> (nat \<times> term_result) option \<times> ext" where
  "terminalApproval os st approvalId choice =
     (case map_of (pendingApprovals st) approvalId of
        None \<Rightarrow> (None, st)
      | Some waiting \<Rightarrow>
          (let st1 = st\<lparr>pendingApprovals := AList.delete approvalId (pendingApprovals st)\<rparr> in
           if \<not> choice then (Some (pa_slot waiting, TR_Error Rejected), st1)
           else
             (case workspaceFolders st of
                [] \<Rightarrow> (Some (pa_slot waiting, TR_Error NoFolder), st1)
              | cwd # _ \<Rightarrow>
                  (let out = os (pa_command waiting) cwd in
                   (Some (pa_slot waiting, proc_result out),
                    st1\<lparr>log := log st @ [Spawn (pa_command waiting) cwd]
                                @ map (\<lambda>c. Post (M_terminal_out c approvalId)) (proc_chunks out)\<rparr>)))))"

text \<open>
  The messages of the webview that touch pending edits, pending approvals and the
  security mode, and their handler.
\<close>

datatype ui_event =
    E_terminalApproval string bool
  | E_setSecurityMode security_mode
  | E_approveEdit string
  | E_rejectEdit string
  | E_approveAll
  | E_rejectAll

definition onDidReceiveMessage ::
  "(string \<Rightarrow> string \<Rightarrow> proc_outcome) \<Rightarrow> (string \<Rightarrow> string) \<Rightarrow> ext \<Rightarrow> ui_event \<Rightarrow> ext" where
  "onDidReceiveMessage os Uri_file st data =
     (case data of
        E_terminalApproval approvalId choice \<Rightarrow> snd (terminalApproval os st approvalId choice)
      | E_setSecurityMode v \<Rightarrow>
          st\<lparr>securityMode := v, log := log st @ [Post (M_securityModeChanged v)]\<rparr>
      | E_approveEdit file \<Rightarrow> writePendingEdit Uri_file st file
      | E_rejectEdit file \<Rightarrow> rejectPendingEdit st file
      | E_approveAll \<Rightarrow> approveAllEdits Uri_file st
      | E_rejectAll \<Rightarrow> rejectAllEdits st)"

section \<open>The server's agent endpoints\<close>

text \<open>
  The arguments of a tool call after \<open>JSON.parse\<close>: \<open>null\<close>, or a value read at
  the fields that hold text (an object; a number, a string, a boolean or an array has
  none of the fields read here, and reading one gives \<open>undefined\<close> as for an object
  without it). Reading a field of \<open>null\<close> throws. \<open>JSON.parse\<close> itself is the
  platform's and is a parameter, \<open>None\<close> where it throws.
\<close>

type_synonym args = "(string \<times> string) list"

datatype json_value =
    JNull
  | JFields args

definition arg :: "args \<Rightarrow> string \<Rightarrow> string option" where
  "arg a k = map_of a k"

text \<open>The accumulated tool call at one index of the server's \<open>toolCalls\<close> array.\<close>

record srv_call =
  sc_id :: string
  sc_name :: string
  sc_arguments :: string

text \<open>
  What the loop reads of a handler's result: \<open>result.success\<close>,
  \<open>result.message || result.error\<close>, and the whole of it as the content of the tool
  message.
\<close>

record handler_result =
  h_success :: bool
  h_summary :: "string option"
  h_body :: string

text \<open>
  What \<open>toolHandlers[toolName]\<close> gives, when it is not \<open>undefined\<close>, is called
  with the arguments. The call gives a result or throws (\<open>Inl\<close>, with the message of
  the exception), and either way leaves the server in some state. A handler of the table
  throws when the arguments are \<open>null\<close>, which it destructures before its \<open>try\<close>;
  the table also answers to the names it inherits from \<open>Object.prototype\<close>
  (\<open>valueOf\<close>, \<open>hasOwnProperty\<close>, \<open>__proto__\<close> and the like), whose members
  throw when called in this way or are no functions at all. A call whose value has no
  fields to read (\<open>result.success\<close> of \<open>undefined\<close>) throws as well.
\<close>

type_synonym handler = "json_value \<Rightarrow> server \<Rightarrow> (string + handler_result) \<times> server"

datatype srv_msg =
    Msg_system string
  | Msg_user string
  | Msg_assistant string
  | Msg_assistant_calls "srv_call list"
  | Msg_tool string handler_result            \<comment> \<open>\<open>tool_call_id\<close>, \<open>content\<close>\<close>

text \<open>The events the chat endpoint writes to its response.\<close>

datatype sse =
    S_content string
  | S_tool_call "(string \<times> string \<times> json_value) list"   \<comment> \<open>\<open>id\<close>, \<open>name\<close>, \<open>args\<close> of each call\<close>
  | S_approval_required string "string option" string   \<comment> \<open>\<open>toolCallId\<close>, \<open>command\<close>, \<open>cwd\<close>\<close>
  | S_step string bool "string option"                   \<comment> \<open>\<open>tool\<close>, \<open>success\<close>, \<open>message\<close>\<close>
  | S_done sessionStats
  | S_error string

record chat =
  chatMessages :: "srv_msg list"
  written :: "sse list"
  srv :: server
  requests :: nat

definition maxLoops :: nat where
  "maxLoops = 15"

definition srv_apply_tool_call :: "srv_call option list \<Rightarrow> tc_delta \<Rightarrow> srv_call option list" where
  "srv_apply_tool_call tcs tc =
     (let idx = tc_index tc;
          cur = (case array_get tcs idx of
                   None \<Rightarrow> \<lparr>sc_id = [], sc_name = [], sc_arguments = []\<rparr>
                 | Some c \<Rightarrow> c);
          cur1 = (case tc_id tc of
                    None \<Rightarrow> cur
                  | Some i \<Rightarrow> if i \<noteq> [] then cur\<lparr>sc_id := i\<rparr> else cur);
          cur2 = (if tc_name tc \<noteq> [] then cur1\<lparr>sc_name := sc_name cur1 @ tc_name tc\<rparr> else cur1);
          cur3 = (if tc_arguments tc \<noteq> []
                  then cur2\<lparr>sc_arguments := sc_arguments cur2 @ tc_arguments tc\<rparr> else cur2)
      in array_set tcs idx cur3)"

text \<open>
  One chunk of the model's stream: the reply so far, the tool calls so far and the
  events written so far.
\<close>

definition srv_apply_delta ::
  "string \<times> srv_call option list \<times> sse list \<Rightarrow> delta \<Rightarrow> string \<times> srv_call option list \<times> sse list" where
  "srv_apply_delta acc d =
     (case acc of (fullReply, tcs, wr) \<Rightarrow>
        (let (fullReply1, wr1) =
               (if d_content d \<noteq> [] then (fullReply @ d_content d, wr @ [S_content (d_content d)])
                else (fullReply, wr))
         in (fullReply1, foldl srv_apply_tool_call tcs (d_tool_calls d), wr1)))"

definition valid_calls :: "srv_call option list \<Rightarrow> srv_call list" where
  "valid_calls tcs =
     List.map_filter
       (\<lambda>tc. case tc of
                None \<Rightarrow> None
              | Some c \<Rightarrow> if sc_id c \<noteq> [] \<and> sc_name c \<noteq> [] then Some c else None)
       tcs"

text \<open>\<open>JSON.parse(tc.function.arguments || '{}')\<close>.\<close>

definition parse_arguments :: "(string \<Rightarrow> json_value option) \<Rightarrow> srv_call \<Rightarrow> json_value option" where
  "parse_arguments JSON_parse tc =
     JSON_parse (if sc_arguments tc = [] then ''{}'' else sc_arguments tc)"

text \<open>
  The \<open>tool_call\<close> event parses the arguments of every valid call, in order; the first
  that does not parse throws.
\<close>

fun tool_call_infos ::
  "(string \<Rightarrow> json_value option) \<Rightarrow> srv_call list \<Rightarrow> (string \<times> string \<times> json_value) list option" where
  "tool_call_infos JSON_parse [] = Some []"
| "tool_call_infos JSON_parse (tc # rest) =
     (case parse_arguments JSON_parse tc of
        None \<Rightarrow> None
      | Some a \<Rightarrow>
          (case tool_call_infos JSON_parse rest of
             None \<Rightarrow> None
           | Some infos \<Rightarrow> Some ((sc_id tc, sc_name tc, a) # infos)))"

text \<open>
  How a round ends: an exception on its way to the \<open>catch\<close> of the endpoint, or the
  end of the loop body with the value of \<open>isDone\<close>.
\<close>

datatype round_result =
    Thrown string chat
  | Continue bool chat

definition push_tool_call :: "toolCallLog \<Rightarrow> server \<Rightarrow> server" where
  "push_tool_call entry sv =
     sv\<lparr>stats := (stats sv)\<lparr>toolCalls := toolCalls (stats sv) @ [entry]\<rparr>\<rparr>"

text \<open>
  The loop over the valid calls. \<open>toolHandlers\<close> is the table of handlers by name,
  \<open>WORKSPACE_DIR\<close> the configured directory. The arguments are parsed again; for
  \<open>runCommand\<close> the approval event reads \<open>args.command\<close> and \<open>args.cwd\<close>, which
  throws when the arguments are \<open>null\<close>; for another name the handler is looked up
  and, if there is one, called, outside any \<open>try\<close>.
\<close>

fun run_calls ::
  "(string \<Rightarrow> json_value option) \<Rightarrow> string \<Rightarrow> (string \<Rightarrow> handler option)
     \<Rightarrow> srv_call list \<Rightarrow> chat \<Rightarrow> round_result" where
  "run_calls JSON_parse WORKSPACE_DIR toolHandlers [] st = Continue False st"
| "run_calls JSON_parse WORKSPACE_DIR toolHandlers (toolCall # rest) st =
     (case parse_arguments JSON_parse toolCall of
        None \<Rightarrow> Thrown ''SyntaxError'' st
      | Some a \<Rightarrow>
          if sc_name toolCall = ''runCommand'' then
            (case a of
               JNull \<Rightarrow> Thrown ''TypeError'' st
             | JFields f \<Rightarrow>
                 Continue True
                   (st\<lparr>written := written st @
                          [S_approval_required (sc_id toolCall) (arg f ''command'')
                             (case arg f ''cwd'' of
                                None \<Rightarrow> WORKSPACE_DIR
                              | Some d \<Rightarrow> if d = [] then WORKSPACE_DIR else d)],
                       srv := push_tool_call
                                \<lparr>tl_name = sc_name toolCall, tl_status = ''pending_approval'',
                                 tl_message = None\<rparr> (srv st)\<rparr>))
          else
            (case toolHandlers (sc_name toolCall) of
               None \<Rightarrow> run_calls JSON_parse WORKSPACE_DIR toolHandlers rest st
             | Some handler \<Rightarrow>
                 (case handler a (srv st) of
                    (Inl e, sv') \<Rightarrow> Thrown e (st\<lparr>srv := sv'\<rparr>)
                  | (Inr result, sv') \<Rightarrow>
                      run_calls JSON_parse WORKSPACE_DIR toolHandlers rest
                        (st\<lparr>srv := push_tool_call
                                      \<lparr>tl_name = sc_name toolCall,
                                       tl_status = (if h_success result then ''success'' else ''error''),
                                       tl_message = h_summary result\<rparr> sv',
                            written := written st @
                              [S_step (sc_name toolCall) (h_success result) (h_summary result)],
                            chatMessages := chatMessages st @ [Msg_tool (sc_id toolCall) result]\<rparr>))))"

text \<open>
  One pass of the \<open>while\<close> loop. The model is a parameter: for the messages sent it
  gives the chunks of its stream and, possibly, the failure that ends the stream.
\<close>

definition server_round ::
  "(string \<Rightarrow> json_value option) \<Rightarrow> string \<Rightarrow> (string \<Rightarrow> handler option)
     \<Rightarrow> (srv_msg list \<Rightarrow> delta list \<times> string option) \<Rightarrow> chat \<Rightarrow> round_result" where
  "server_round JSON_parse WORKSPACE_DIR toolHandlers llm st =
     (let (deltas, failure) = llm (chatMessages st);
          (fullReply, tcs, wr) = foldl srv_apply_delta ([], [], written st) deltas;
          st0 = st\<lparr>requests := Suc (requests st), written := wr\<rparr>
      in case failure of
           Some e \<Rightarrow> Thrown e st0
         | None \<Rightarrow>
             (let st1 = (if fullReply \<noteq> []
                         then st0\<lparr>chatMessages := chatMessages st0 @ [Msg_assistant fullReply]\<rparr>
                         else st0)
              in if length tcs > 0 then
                   (let validCalls = valid_calls tcs in
                    if length validCalls > 0 then
                      (let st2 = st1\<lparr>chatMessages := chatMessages st1 @ [Msg_assistant_calls validCalls]\<rparr>
                       in case tool_call_infos JSON_parse validCalls of
                            None \<Rightarrow> Thrown ''SyntaxError'' st2
                          | Some infos \<Rightarrow>
                              run_calls JSON_parse WORKSPACE_DIR toolHandlers validCalls
                                (st2\<lparr>written := written st2 @ [S_tool_call infos]\<rparr>))
                    else Continue False st1)
                 else Continue True st1))"

function server_loop ::
  "(string \<Rightarrow> json_value option) \<Rightarrow> string \<Rightarrow> (string \<Rightarrow> handler option)
     \<Rightarrow> (srv_msg list \<Rightarrow> delta list \<times> string option) \<Rightarrow> nat \<Rightarrow> bool \<Rightarrow> chat \<Rightarrow> round_result" where
  "server_loop JSON_parse WORKSPACE_DIR toolHandlers llm loopCount isDone st =
     (if \<not> isDone \<and> loopCount < maxLoops then
        (case server_round JSON_parse WORKSPACE_DIR toolHandlers llm st of
           Thrown e st' \<Rightarrow> Thrown e st'
         | Continue isDone' st' \<Rightarrow>
             server_loop JSON_parse WORKSPACE_DIR toolHandlers llm (loopCount + 1) isDone' st')
      else Continue isDone st)"
  by pat_completeness auto
termination
  by (relation "measure (\<lambda>(J, ws, H, llm, loopCount, isDone, st). maxLoops - loopCount)") auto

declare server_loop.simps [simp del]

text \<open>
  The handler of \<open>POST /api/agent/chat\<close>: the statistics are reset, the messages are
  the system prompt, the last ten of the history and the user's message, and after the
  loop the summary is written, or the error.
\<close>

definition agent_chat ::
  "(string \<Rightarrow> json_value option) \<Rightarrow> string \<Rightarrow> string
     \<Rightarrow> (string \<Rightarrow> handler option)
     \<Rightarrow> (srv_msg list \<Rightarrow> delta list \<times> string option) \<Rightarrow> server \<Rightarrow> string \<Rightarrow> srv_msg list \<Rightarrow> chat" where
  "agent_chat JSON_parse WORKSPACE_DIR systemPrompt toolHandlers llm sv message history =
     (let sv0 = sv\<lparr>stats := \<lparr>linesWritten = 0, filesModified = {}, filesRead = {}, toolCalls = []\<rparr>\<rparr>;
          st0 = \<lparr>chatMessages = [Msg_system systemPrompt]
                                 @ drop (length history - 10) history @ [Msg_user message],
                 written = [], srv = sv0, requests = 0\<rparr>
      in case server_loop JSON_parse WORKSPACE_DIR toolHandlers llm 0 False st0 of
           Thrown e st \<Rightarrow> st\<lparr>written := written st @ [S_error e]\<rparr>
         | Continue d st \<Rightarrow> st\<lparr>written := written st @ [S_done (stats (srv st))]\<rparr>)"




text \<open>The state a round or the loop ends in, thrown or not.\<close>

definition final_chat :: "round_result \<Rightarrow> chat" where
  "final_chat r = (case r of Thrown e st \<Rightarrow> st | Continue d st \<Rightarrow> st)"

text \<open>
  The valid tool calls a stream of chunks amounts to: what the loop accumulates, apart
  from the reply text and the events written on the way.
\<close>

definition stream_calls :: "delta list \<Rightarrow> srv_call list" where
  "stream_calls deltas =
     valid_calls (foldl (\<lambda>tcs d. foldl srv_apply_tool_call tcs (d_tool_calls d)) [] deltas)"

section \<open>The extension's agent loop\<close>

text \<open>
  What the loop takes from outside: the platform's functions, the model behind
  \<open>fetch\<close>, the clock, the operating system, the tools that only query the editor,
  the user, who answers an approval card by its identifier or never does, and the order
  in which what the calls of a batch wait for comes about: for the number of the step
  and the positions of the calls that can go on, the position of the one that does.
\<close>

datatype fetch_result =
    F_abort                      \<comment> \<open>the request was aborted\<close>
  | F_error string               \<comment> \<open>the response is not ok, or has no body\<close>
  | F_stream "string list"       \<comment> \<open>the chunks of the response body, as text\<close>

datatype x_result =
    R_error err_msg                          \<comment> \<open>\<open>{ error }\<close>\<close>
  | R_edit edit_file_result
  | R_term term_result
  | R_search_replace search_replace_result
  | R_list list_dir_result
  | R_success                                \<comment> \<open>\<open>{ success: true }\<close>\<close>
  | R_query string                           \<comment> \<open>the result of a tool that only queries\<close>

record x_call =
  xc_id :: "string option"
  xc_name :: string
  xc_arguments :: string

datatype x_msg =
    X_user string
  | X_system_warning
  | X_assistant string "x_call list option"
  | X_tool "string option" string x_result       \<comment> \<open>\<open>tool_call_id\<close>, \<open>name\<close>, \<open>content\<close>\<close>

record platform =
  pf_JSON_parse :: "string \<Rightarrow> json_value option"
  pf_parse_delta :: "string \<Rightarrow> delta option"
  pf_path_resolve :: "string \<Rightarrow> string \<Rightarrow> string"
  pf_readDirectory :: "string \<Rightarrow> err_msg + (string \<times> file_type) list"
  pf_query :: "string \<Rightarrow> args \<Rightarrow> files \<Rightarrow> x_result"
  pf_os :: "string \<Rightarrow> string \<Rightarrow> proc_outcome"
  pf_clock :: "nat \<Rightarrow> string"
  pf_user :: "string \<Rightarrow> bool option"
  pf_pick :: "nat \<Rightarrow> nat list \<Rightarrow> nat"
  pf_fetch :: "x_msg list \<Rightarrow> fetch_result"

text \<open>
  A field of the arguments; the fields a tool's schema requires are taken to be there.
\<close>

definition field :: "args \<Rightarrow> string \<Rightarrow> string" where
  "field a k = (case arg a k of None \<Rightarrow> [] | Some s \<Rightarrow> s)"

definition status_label :: "string \<Rightarrow> args \<Rightarrow> string" where
  "status_label nm a =
     (if nm = ''edit_file'' then ''Writing to '' @ field a ''target_file'' @ ''...''
      else ''Running '' @ nm @ ''...'')"

text \<open>The names the \<open>switch\<close> over the tool's name has a case for.\<close>

definition known_tool :: "string \<Rightarrow> bool" where
  "known_tool nm \<longleftrightarrow>
     nm = ''edit_file'' \<or> nm = ''run_terminal_cmd'' \<or> nm = ''read_file'' \<or> nm = ''list_dir''
     \<or> nm = ''codebase_search'' \<or> nm = ''grep_search'' \<or> nm = ''file_search''
     \<or> nm = ''search_replace'' \<or> nm = ''create_diagram'' \<or> nm = ''delete_file''
     \<or> nm = ''get_diagnostics'' \<or> nm = ''view_file_outline''"

subsection \<open>The calls of a batch\<close>

text \<open>
  The batch of tool calls is mapped over with an asynchronous callback and the results
  are awaited together (\<open>Promise.all\<close>). Each call runs, in the order of the batch, up
  to the first thing it waits for; from then on the calls go on one at a time, each when
  what it waits for has come about, up to the next thing it waits for or to its result.
  A call is therefore in one of these states: it has its result, or it waits for a write,
  a read, a deletion, a listing or a query of the host, or for the answer to an approval
  card. What happens to the files happens when the call goes on, not when it starts to
  wait. A spawned process is taken to run to its end when it is spawned: what it does
  is the operating system's.
\<close>

datatype thread =
    T_done x_result
  | T_edit_write string string string     \<comment> \<open>\<open>edit_file\<close> in autopilot mode: the resolved path, the path given, the content\<close>
  | T_edit_read string string string      \<comment> \<open>\<open>edit_file\<close> in secure mode, reading the current content\<close>
  | T_approval string                     \<comment> \<open>\<open>run_terminal_cmd\<close>, for the approval with this identifier\<close>
  | T_query string args                   \<comment> \<open>a tool that only queries: its name and arguments\<close>
  | T_list string                         \<comment> \<open>\<open>list_dir\<close> of the path given\<close>
  | T_sr_read string string string        \<comment> \<open>\<open>search_replace\<close>, reading: the resolved path, the old and the new text\<close>
  | T_sr_write string string              \<comment> \<open>\<open>search_replace\<close>, writing: the resolved path and the new content\<close>
  | T_delete string                       \<comment> \<open>\<open>delete_file\<close> of the resolved path\<close>

definition createDiagram :: "ext \<Rightarrow> string \<Rightarrow> x_result \<times> ext" where
  "createDiagram st content =
     (R_success,
      st\<lparr>log := log st @
            [Post (M_content ([CHR 0x0A, CHR 0x0A, CHR 0x60, CHR 0x60, CHR 0x60] @ ''mermaid''
                     @ [CHR 0x0A] @ content
                     @ [CHR 0x0A, CHR 0x60, CHR 0x60, CHR 0x60, CHR 0x0A, CHR 0x0A]))]\<rparr>)"

text \<open>
  The \<open>switch\<close> over the tool's name, up to the first thing the tool waits for. A tool
  that throws before it waits (no workspace folder is open) has the result
  \<open>{ error: e.message }\<close> from the \<open>catch\<close> around the \<open>switch\<close>.
\<close>

definition begin_tool :: "platform \<Rightarrow> nat \<Rightarrow> ext \<Rightarrow> string \<Rightarrow> args \<Rightarrow> thread \<times> ext" where
  "begin_tool pf slot st nm a =
     (if nm = ''edit_file'' then
        (case workspaceFolders st of
           [] \<Rightarrow> (T_done (R_error NoOpenFolder), st)
         | root # _ \<Rightarrow>
             (let uri = pf_path_resolve pf root (field a ''target_file'') in
              if securityMode st = Full
              then (T_edit_write uri (field a ''target_file'') (field a ''code_edit''), st)
              else (T_edit_read uri (field a ''target_file'') (field a ''code_edit''), st)))
      else if nm = ''run_terminal_cmd'' then
        (case runTerminalCommand (pf_os pf) (pf_clock pf) slot st (field a ''command'') of
           (None, st') \<Rightarrow> (T_approval (pf_clock pf (approvalsAsked st)), st')
         | (Some r, st') \<Rightarrow> (T_done (R_term r), st'))
      else if nm = ''read_file'' \<or> nm = ''codebase_search'' \<or> nm = ''grep_search''
              \<or> nm = ''file_search'' \<or> nm = ''view_file_outline'' then
        (T_query nm a, st)
      else if nm = ''get_diagnostics'' then
        (T_done (pf_query pf nm a (xfiles st)), st)
      else if nm = ''list_dir'' then
        (case workspaceFolders st of
           [] \<Rightarrow> (T_done (R_error NoOpenFolder), st)
         | root # _ \<Rightarrow> (T_list (field a ''relative_workspace_path''), st))
      else if nm = ''search_replace'' then
        (case workspaceFolders st of
           [] \<Rightarrow> (T_done (R_error NoOpenFolder), st)
         | root # _ \<Rightarrow>
             (T_sr_read (pf_path_resolve pf root (field a ''file_path''))
                (field a ''old_string'') (field a ''new_string''), st))
      else if nm = ''create_diagram'' then
        (case createDiagram st (field a ''content'') of (r, st') \<Rightarrow> (T_done r, st'))
      else if nm = ''delete_file'' then
        (case workspaceFolders st of
           [] \<Rightarrow> (T_done (R_error NoOpenFolder), st)
         | root # _ \<Rightarrow> (T_delete (pf_path_resolve pf root (field a ''target_file'')), st))
      else (T_done (R_error UnknownTool), st))"

text \<open>
  One call of the batch, up to the first thing it waits for: the arguments are parsed,
  the status line is posted and the tool is called. Arguments that do not parse give the
  result at once. With arguments that are \<open>null\<close>, the status line of \<open>edit_file\<close>
  throws before it is posted, and every tool of the \<open>switch\<close> throws on reading its
  first argument.
\<close>

definition start_thread :: "platform \<Rightarrow> nat \<Rightarrow> ext \<Rightarrow> x_call \<Rightarrow> thread \<times> ext" where
  "start_thread pf slot st tc =
     (case pf_JSON_parse pf (xc_arguments tc) of
        None \<Rightarrow> (T_done (R_error InvalidArguments), st)
      | Some JNull \<Rightarrow>
          if xc_name tc = ''edit_file'' then (T_done (R_error NullArguments), st)
          else
            (T_done (R_error (if known_tool (xc_name tc) then NullArguments else UnknownTool)),
             st\<lparr>log := log st @ [Post (M_tool_executing (''Running '' @ xc_name tc @ ''...''))]\<rparr>)
      | Some (JFields a) \<Rightarrow>
          begin_tool pf slot
            (st\<lparr>log := log st @ [Post (M_tool_executing (status_label (xc_name tc) a))]\<rparr>)
            (xc_name tc) a)"

text \<open>
  The batch is mapped over in order, so the calls start in order, each whatever the one
  before it waits for.
\<close>

fun start_threads :: "platform \<Rightarrow> nat \<Rightarrow> ext \<Rightarrow> x_call list \<Rightarrow> thread list \<times> ext" where
  "start_threads pf slot st [] = ([], st)"
| "start_threads pf slot st (tc # rest) =
     (case start_thread pf slot st tc of
        (th, st1) \<Rightarrow>
          (case start_threads pf (Suc slot) st1 rest of
             (ths, st2) \<Rightarrow> (th # ths, st2)))"

text \<open>
  A call goes on when what it waits for has come about. The write, the read or the
  deletion is done then, on the files as they then are; \<open>edit_file\<close> in secure mode
  stores the pending edit and posts its card; \<open>search_replace\<close> tests the content it
  has read, computes the new content from it and waits again, for its write; a terminal
  command goes on with the user's answer, as the stored resolver is called by the handler
  of the webview's message.
\<close>

definition step_thread :: "platform \<Rightarrow> ext \<Rightarrow> thread \<Rightarrow> thread \<times> ext" where
  "step_thread pf st th =
     (case th of
        T_done r \<Rightarrow> (T_done r, st)
      | T_edit_write uri fpath codeEdit \<Rightarrow>
          (case writeFile_fs (xfiles st) uri codeEdit of
             Inl e \<Rightarrow> (T_done (R_error e), st)
           | Inr fs' \<Rightarrow> (T_done (R_edit (EF_Success fpath)), st\<lparr>xfiles := fs'\<rparr>))
      | T_edit_read uri fpath codeEdit \<Rightarrow>
          (let oldLineCount = (case readFile_fs (xfiles st) uri of
                                 Inl e \<Rightarrow> 0
                               | Inr current \<Rightarrow> line_count current);
               newLineCount = line_count codeEdit
           in (T_done (R_edit (EF_Pending uri)),
               st\<lparr>pendingEdits :=
                     AList.update fpath
                       \<lparr>pe_newContent = codeEdit,
                        pe_added = newLineCount - oldLineCount,
                        pe_removed = oldLineCount - newLineCount\<rparr>
                       (pendingEdits st),
                   log := log st @ [Post (M_edit_pending uri)]\<rparr>))
      | T_approval approvalId \<Rightarrow>
          (case pf_user pf approvalId of
             None \<Rightarrow> (T_approval approvalId, st)
           | Some choice \<Rightarrow>
               (case terminalApproval (pf_os pf) st approvalId choice of
                  (Some (k, r), st') \<Rightarrow> (T_done (R_term r), st')
                | (None, st') \<Rightarrow> (T_approval approvalId, st')))
      | T_query nm a \<Rightarrow> (T_done (pf_query pf nm a (xfiles st)), st)
      | T_list dpath \<Rightarrow>
          (case listDir_ext (pf_path_resolve pf) (pf_readDirectory pf) (workspaceFolders st) dpath of
             LDThrown e \<Rightarrow> (T_done (R_error e), st)
           | r \<Rightarrow> (T_done (R_list r), st))
      | T_sr_read uri oldStr newStr \<Rightarrow>
          (case readFile_fs (xfiles st) uri of
             Inl e \<Rightarrow> (T_done (R_error e), st)
           | Inr content \<Rightarrow>
               if \<not> str_includes content oldStr
               then (T_done (R_search_replace (SRError OldTextNotFound)), st)
               else (T_sr_write uri (replace content oldStr newStr), st))
      | T_sr_write uri newContent \<Rightarrow>
          (case writeFile_fs (xfiles st) uri newContent of
             Inl e \<Rightarrow> (T_done (R_error e), st)
           | Inr fs' \<Rightarrow> (T_done (R_search_replace SRSuccess), st\<lparr>xfiles := fs'\<rparr>))
      | T_delete uri \<Rightarrow>
          (case xfiles st uri of
             None \<Rightarrow> (T_done (R_error (FsError ''FileNotFound'')), st)
           | Some f \<Rightarrow> (T_done R_success, st\<lparr>xfiles := (xfiles st)(uri := None)\<rparr>)))"

text \<open>
  A call can go on unless it has its result already; a terminal command can only when
  the user answers its card and the resolver stored under the card's identifier is still
  its own. A command with no answer, or whose resolver was replaced by a later command
  under the same identifier, waits for ever.
\<close>

definition can_go_on :: "platform \<Rightarrow> ext \<Rightarrow> nat \<Rightarrow> thread \<Rightarrow> bool" where
  "can_go_on pf st slot th =
     (case th of
        T_done r \<Rightarrow> False
      | T_approval approvalId \<Rightarrow>
          (case map_of (pendingApprovals st) approvalId of
             None \<Rightarrow> False
           | Some waiting \<Rightarrow> pa_slot waiting = slot \<and> pf_user pf approvalId \<noteq> None)
      | _ \<Rightarrow> True)"

definition ready :: "platform \<Rightarrow> ext \<Rightarrow> thread list \<Rightarrow> nat list" where
  "ready pf st threads = filter (\<lambda>k. can_go_on pf st k (threads ! k)) [0..<length threads]"

text \<open>
  The number of times a call has yet to go on, at most: twice for a \<open>search_replace\<close>
  that has not read yet, once for any other call that waits.
\<close>

definition steps_left :: "thread \<Rightarrow> nat" where
  "steps_left th = (case th of T_done r \<Rightarrow> 0 | T_sr_read uri oldStr newStr \<Rightarrow> 2 | _ \<Rightarrow> 1)"

text \<open>
  The calls go on, one at a time, in the order the platform decides, until none can.
\<close>

function run_threads :: "platform \<Rightarrow> nat \<Rightarrow> ext \<Rightarrow> thread list \<Rightarrow> thread list \<times> ext" where
  "run_threads pf n st threads =
     (if ready pf st threads = [] then (threads, st)
      else
        (let k = (if pf_pick pf n (ready pf st threads) \<in> set (ready pf st threads)
                  then pf_pick pf n (ready pf st threads)
                  else hd (ready pf st threads))
         in run_threads pf (Suc n) (snd (step_thread pf st (threads ! k)))
              (threads[k := fst (step_thread pf st (threads ! k))])))"
  by pat_completeness auto
termination
proof (relation "measure (\<lambda>(pf, n, st, threads). sum_list (map steps_left threads))")
  show "wf (measure (\<lambda>(pf, n, st, threads). sum_list (map steps_left threads)))" by simp
next
  fix pf :: platform and n :: nat and st :: ext and threads :: "thread list" and k :: nat
  assume ne: "ready pf st threads \<noteq> []"
    and k: "k = (if pf_pick pf n (ready pf st threads) \<in> set (ready pf st threads)
                 then pf_pick pf n (ready pf st threads)
                 else hd (ready pf st threads))"
  from ne k have "k \<in> set (ready pf st threads)" by (auto simp: hd_in_set)
  then have lt: "k < length threads" and go: "can_go_on pf st k (threads ! k)"
    by (auto simp: ready_def)
  have less: "steps_left (fst (step_thread pf st (threads ! k))) < steps_left (threads ! k)"
  proof (cases "threads ! k")
    case (T_approval i)
    with go obtain w where w: "map_of (pendingApprovals st) i = Some w"
      and u: "pf_user pf i \<noteq> None"
      by (auto simp: can_go_on_def split: option.splits)
    from u obtain c where c: "pf_user pf i = Some c" by auto
    from w have "\<exists>r st'. terminalApproval (pf_os pf) st i c = (Some (pa_slot w, r), st')"
      by (cases c; cases "workspaceFolders st") (simp_all add: terminalApproval_def Let_def)
    then obtain r st' where "terminalApproval (pf_os pf) st i c = (Some (pa_slot w, r), st')"
      by blast
    with T_approval c show ?thesis by (simp add: step_thread_def steps_left_def)
  next
    case (T_done r)
    with go show ?thesis by (simp add: can_go_on_def)
  qed (auto simp: step_thread_def steps_left_def Let_def
         split: sum.splits list_dir_result.splits option.splits)
  have "sum_list (map steps_left (threads[k := fst (step_thread pf st (threads ! k))]))
          < sum_list (map steps_left threads)"
  proof -
    have "steps_left (threads ! k) \<le> sum_list (map steps_left threads)"
      using lt by (simp add: member_le_sum_list)
    with lt less show ?thesis by (simp add: sum_list_update map_update)
  qed
  then show "((pf, Suc n, snd (step_thread pf st (threads ! k)),
               threads[k := fst (step_thread pf st (threads ! k))]),
              (pf, n, st, threads))
             \<in> measure (\<lambda>(pf, n, st, threads). sum_list (map steps_left threads))"
    by simp
qed

declare run_threads.simps [simp del]

text \<open>
  \<open>Promise.all\<close> over the batch: the tool messages in the order of the calls, once
  every call has its result; \<open>None\<close> when one never has.
\<close>

definition thread_result :: "thread \<Rightarrow> x_result option" where
  "thread_result th = (case th of T_done r \<Rightarrow> Some r | _ \<Rightarrow> None)"

fun tool_messages :: "x_call list \<Rightarrow> x_result option list \<Rightarrow> x_msg list option" where
  "tool_messages (tc # tcs) (Some r # rs) =
     (case tool_messages tcs rs of
        None \<Rightarrow> None
      | Some ms \<Rightarrow> Some (X_tool (xc_id tc) (xc_name tc) r # ms))"
| "tool_messages (tc # tcs) (None # rs) = None"
| "tool_messages tcs rs = Some []"

definition run_batch :: "platform \<Rightarrow> ext \<Rightarrow> x_call list \<Rightarrow> x_msg list option \<times> ext" where
  "run_batch pf st calls =
     (case start_threads pf 0 st calls of
        (threads, st1) \<Rightarrow>
          (case run_threads pf 0 st1 threads of
             (threads', st2) \<Rightarrow> (tool_messages calls (map thread_result threads'), st2)))"

text \<open>The state of one run of the loop.\<close>

record x_run =
  x_history :: "x_msg list"
  x_ext :: ext
  x_requests :: nat

datatype x_end =
    X_finished
  | X_aborted
  | X_failed string
  | X_suspended                  \<comment> \<open>the loop waits for an approval that never comes\<close>

datatype x_step =
    End x_end x_run
  | Next bool x_run              \<comment> \<open>the end of the loop body, with \<open>isDone\<close>\<close>

definition named_calls :: "tool_acc option list \<Rightarrow> x_call list" where
  "named_calls tcs =
     List.map_filter
       (\<lambda>tc. case tc of
                None \<Rightarrow> None
              | Some c \<Rightarrow>
                  if acc_name c \<noteq> []
                  then Some \<lparr>xc_id = acc_id c, xc_name = acc_name c, xc_arguments = acc_arguments c\<rparr>
                  else None)
       tcs"

definition result_has_error :: "x_result \<Rightarrow> bool" where
  "result_has_error r =
     (case r of
        R_error e \<Rightarrow> True
      | R_term (TR_Error e) \<Rightarrow> True
      | R_term (TR_ProcError m) \<Rightarrow> True
      | R_search_replace (SRError e) \<Rightarrow> True
      | _ \<Rightarrow> False)"

definition tool_error_in :: "x_msg list \<Rightarrow> bool" where
  "tool_error_in history =
     list_ex (\<lambda>m. case m of X_tool i n r \<Rightarrow> result_has_error r | _ \<Rightarrow> False) history"

text \<open>
  One pass of the \<open>while\<close> loop, \<open>loopCount\<close> being the count after its increment.
\<close>

definition x_round :: "platform \<Rightarrow> nat \<Rightarrow> x_run \<Rightarrow> x_step" where
  "x_round pf loopCount run =
     (let run0 = run\<lparr>x_requests := Suc (x_requests run)\<rparr> in
      case pf_fetch pf (x_history run) of
        F_abort \<Rightarrow> End X_aborted run0
      | F_error e \<Rightarrow> End (X_failed e) run0
      | F_stream chunks \<Rightarrow>
          (let dec = snd (decode_stream (pf_parse_delta pf) [] chunks);
               st1 = (x_ext run0)\<lparr>log := log (x_ext run0) @ map Post (posted dec)\<rparr>;
               tool_calls = (if length (toolCalls_acc dec) > 0
                             then Some (named_calls (toolCalls_acc dec)) else None);
               history1 = x_history run0 @ [X_assistant (fullContent dec) tool_calls]
           in case tool_calls of
                Some (tc # tcs) \<Rightarrow>
                  (case run_batch pf st1 (tc # tcs) of
                     (None, st2) \<Rightarrow> End X_suspended (run0\<lparr>x_history := history1, x_ext := st2\<rparr>)
                   | (Some toolResults, st2) \<Rightarrow>
                       Next False
                         (run0\<lparr>x_history := history1 @ toolResults,
                               x_ext := st2\<lparr>log := log st2 @ [Post M_done]\<rparr>\<rparr>))
              | _ \<Rightarrow>
                  if tool_error_in history1 \<and> loopCount < 10 then
                    Next False (run0\<lparr>x_history := history1 @ [X_system_warning], x_ext := st1\<rparr>)
                  else
                    Next True (run0\<lparr>x_history := history1,
                                    x_ext := st1\<lparr>log := log st1 @ [Post M_done]\<rparr>\<rparr>)))"

function runAgentLoop :: "platform \<Rightarrow> nat \<Rightarrow> bool \<Rightarrow> x_run \<Rightarrow> x_end \<times> x_run" where
  "runAgentLoop pf loopCount isDone run =
     (if \<not> isDone \<and> loopCount < 15 then
        (case x_round pf (loopCount + 1) run of
           End e run' \<Rightarrow> (e, run')
         | Next isDone' run' \<Rightarrow> runAgentLoop pf (loopCount + 1) isDone' run')
      else (X_finished, run))"
  by pat_completeness auto
termination
  by (relation "measure (\<lambda>(pf, loopCount, isDone, run). 15 - loopCount)") auto

declare runAgentLoop.simps [simp del]

section \<open>Models that call a tool in every round\<close>

text \<open>
  A call of the server's loop that goes through: its arguments parse and, if the table
  has a handler under its name, the call of the handler returns, whatever the state of
  the server.
\<close>

definition call_returns ::
  "(string \<Rightarrow> json_value option) \<Rightarrow> (string \<Rightarrow> handler option) \<Rightarrow> srv_call \<Rightarrow> bool" where
  "call_returns JSON_parse toolHandlers c \<longleftrightarrow>
     (case parse_arguments JSON_parse c of
        None \<Rightarrow> False
      | Some a \<Rightarrow>
          (case toolHandlers (sc_name c) of
             None \<Rightarrow> True
           | Some h \<Rightarrow> \<forall>sv. \<not> isl (fst (h a sv))))"

text \<open>
  The model of the round-cap property, for the server: whatever messages it is sent, its
  stream does not fail and amounts to at least one valid tool call, no call being
  \<open>runCommand\<close> and every call going through.
\<close>

definition every_round_calls_a_tool ::
  "(string \<Rightarrow> json_value option) \<Rightarrow> (string \<Rightarrow> handler option)
     \<Rightarrow> (srv_msg list \<Rightarrow> delta list \<times> string option) \<Rightarrow> bool" where
  "every_round_calls_a_tool JSON_parse toolHandlers llm \<longleftrightarrow>
     (\<forall>msgs. snd (llm msgs) = None
        \<and> stream_calls (fst (llm msgs)) \<noteq> []
        \<and> (\<forall>c\<in>set (stream_calls (fst (llm msgs))).
              sc_name c \<noteq> ''runCommand'' \<and> call_returns JSON_parse toolHandlers c))"

text \<open>
  The same for the extension: whatever the history, the response is a stream that
  decodes to at least one named tool call, none being \<open>run_terminal_cmd\<close>.
\<close>

definition x_every_round_calls_a_tool :: "platform \<Rightarrow> bool" where
  "x_every_round_calls_a_tool pf \<longleftrightarrow>
     (\<forall>h. \<exists>chunks.
        pf_fetch pf h = F_stream chunks
      \<and> named_calls (toolCalls_acc (snd (decode_stream (pf_parse_delta pf) [] chunks))) \<noteq> []
      \<and> (\<forall>tc\<in>set (named_calls (toolCalls_acc (snd (decode_stream (pf_parse_delta pf) [] chunks)))).
            xc_name tc \<noteq> ''run_terminal_cmd''))"

section \<open>Spawned processes and approval cards\<close>

text \<open>The processes spawned, among the events of a log.\<close>

definition spawns :: "event list \<Rightarrow> event list" where
  "spawns l = filter (\<lambda>e. case e of Spawn c d \<Rightarrow> True | Post m \<Rightarrow> False) l"





section \<open>Properties of the string functions\<close>

lemma indexOf_Some:
  "indexOf s p = Some i \<Longrightarrow>
     take (length p) (drop i s) = p \<and> (\<forall>j<i. take (length p) (drop j s) \<noteq> p)"
proof (induction s arbitrary: i)
  case Nil
  then show ?case by (auto split: if_splits)
next
  case (Cons c cs)
  show ?case
  proof (cases "take (length p) (c # cs) = p")
    case True
    with Cons.prems show ?thesis by simp
  next
    case False
    with Cons.prems obtain k where k: "indexOf cs p = Some k" "i = Suc k" by auto
    from Cons.IH[OF k(1)]
    have ih: "take (length p) (drop k cs) = p" "\<forall>j<k. take (length p) (drop j cs) \<noteq> p"
      by auto
    show ?thesis
    proof (intro conjI allI impI)
      show "take (length p) (drop i (c # cs)) = p" using ih k by simp
    next
      fix j assume "j < i"
      show "take (length p) (drop j (c # cs)) \<noteq> p"
      proof (cases j)
        case 0 then show ?thesis using False by simp
      next
        case (Suc j') then show ?thesis using ih(2) k \<open>j < i\<close> by simp
      qed
    qed
  qed
qed

lemma indexOf_None: "indexOf s p = None \<Longrightarrow> take (length p) (drop j s) \<noteq> p"
proof (induction s arbitrary: j)
  case Nil
  then show ?case by (auto split: if_splits)
next
  case (Cons c cs)
  then show ?case by (cases j) (auto split: if_splits)
qed

text \<open>\<open>includes\<close> decides whether the pattern occurs as a contiguous part of the text.\<close>

lemma str_includes_iff: "str_includes s p \<longleftrightarrow> (\<exists>a b. s = a @ p @ b)"
proof
  assume "str_includes s p"
  then obtain i where "indexOf s p = Some i" by (auto simp: str_includes_def)
  from indexOf_Some[OF this] have "take (length p) (drop i s) = p" by simp
  then have "s = take i s @ p @ drop (length p) (drop i s)"
    by (metis append_take_drop_id)
  then show "\<exists>a b. s = a @ p @ b" by blast
next
  assume "\<exists>a b. s = a @ p @ b"
  then obtain a b where "s = a @ p @ b" by blast
  then have "take (length p) (drop (length a) s) = p" by simp
  then show "str_includes s p" using indexOf_None[of s p "length a"]
    by (auto simp: str_includes_def)
qed

section \<open>Editing a file whose text lacks the old text\<close>

text \<open>
  C5. When the file exists and its text does not contain \<open>oldText\<close>, the server's
  \<open>editFile\<close> returns the error "Old text not found in file" with its hint, the
  extension's \<open>search_replace\<close> returns its not-found error, and neither writes:
  the file system and the session statistics after the call are those before it.
\<close>

theorem edit_absent_text_no_write:
  assumes "\<not> (\<exists>a b. content = a @ oldText @ b)"
  shows "(files sv filePath = Some (FileObj content) \<longrightarrow>
            editFile sv filePath oldText newText =
              (EditError ''Old text not found in file. Make sure to use exact text including whitespace.''
                 (Some ''Try reading the file first to get exact content''), sv))
       \<and> (fs (path_resolve root fpath) = Some (FileObj content) \<longrightarrow>
            searchReplace path_resolve (root # others) fs fpath oldText newText =
              (SRError OldTextNotFound, fs))"
  using assms
  by (simp add: editFile_def searchReplace_def existsSync_def readFileSync_def
        readFile_fs_def str_includes_iff)

theorem edit_absent_text_no_write_witness:
  "editFile \<lparr>files = [''/w/a.txt'' \<mapsto> FileObj ''hello''],
              stats = \<lparr>linesWritten = 0, filesModified = {}, filesRead = {}, toolCalls = []\<rparr>,
              executed = []\<rparr>
       ''/w/a.txt'' ''xyz'' ''q''
     = (EditError ''Old text not found in file. Make sure to use exact text including whitespace.''
          (Some ''Try reading the file first to get exact content''),
        \<lparr>files = [''/w/a.txt'' \<mapsto> FileObj ''hello''],
         stats = \<lparr>linesWritten = 0, filesModified = {}, filesRead = {}, toolCalls = []\<rparr>,
              executed = []\<rparr>)
   \<and> searchReplace (\<lambda>r p. r @ ''/'' @ p) [''/w''] [''/w/a.txt'' \<mapsto> FileObj ''hello'']
       ''a.txt'' ''xyz'' ''q''
     = (SRError OldTextNotFound, [''/w/a.txt'' \<mapsto> FileObj ''hello''])"
proof -
  have absent: "\<not> (\<exists>a b. ''hello'' = a @ ''xyz'' @ b)"
    using str_includes_iff[of "''hello''" "''xyz''"] by (simp add: str_includes_def)
  show ?thesis
    using edit_absent_text_no_write[OF absent,
            of "\<lparr>files = [''/w/a.txt'' \<mapsto> FileObj ''hello''],
                 stats = \<lparr>linesWritten = 0, filesModified = {}, filesRead = {}, toolCalls = []\<rparr>,
              executed = []\<rparr>"
               "''/w/a.txt''" "''q''"
               "[''/w/a.txt'' \<mapsto> FileObj ''hello'']" "\<lambda>r p. r @ ''/'' @ p" "''/w''" "''a.txt''" "[]"]
    by simp
qed

section \<open>Replacing the first occurrence\<close>

lemma GetSubstitution_plain:
  "CHR ''$'' \<notin> set r \<Longrightarrow> GetSubstitution m b a r = r"
  by (induction m b a r rule: GetSubstitution.induct) auto

lemma indexOf_occurrence:
  assumes "indexOf s p = Some i"
  shows "s = take i s @ p @ drop (i + length p) s"
proof -
  from indexOf_Some[OF assms] have "take (length p) (drop i s) = p" by simp
  then have "drop i s = p @ drop (length p) (drop i s)"
    by (metis append_take_drop_id)
  then have "s = take i s @ p @ drop (length p) (drop i s)"
    by (metis append_take_drop_id)
  then show ?thesis by (simp add: add.commute)
qed

lemma indexOf_first:
  assumes "s = a @ p @ b"
    and first: "\<And>a' b'. s = a' @ p @ b' \<Longrightarrow> length a \<le> length a'"
  shows "indexOf s p = Some (length a)"
proof -
  have occ: "take (length p) (drop (length a) s) = p" using assms(1) by simp
  then obtain i where i: "indexOf s p = Some i"
    using indexOf_None[of s p "length a"] by (cases "indexOf s p") auto
  from indexOf_Some[OF i] occ have "\<not> length a < i" by blast
  moreover have "length a \<le> length (take i s)"
    using first[OF indexOf_occurrence[OF i]] .
  ultimately have "i = length a" by simp
  with i show ?thesis by simp
qed

text \<open>
  When the new text holds no dollar sign, \<open>replace\<close> puts it in the place of the
  first occurrence of the pattern and keeps the text on both sides, later occurrences
  included.
\<close>

lemma replace_first_literal:
  assumes "s = a @ p @ b"
    and "\<And>a' b'. s = a' @ p @ b' \<Longrightarrow> length a \<le> length a'"
    and "CHR ''$'' \<notin> set r"
  shows "replace s p r = a @ r @ b"
proof -
  have "indexOf s p = Some (length a)" using indexOf_first[OF assms(1,2)] .
  then show ?thesis using assms(1,3) by (simp add: replace_def GetSubstitution_plain)
qed

text \<open>
  C6. The file holds \<open>x x\<close>, the old text is \<open>x\<close> and the new text is the two
  characters \<open>$$\<close>. Replacing the first occurrence with the new text would give
  \<open>$$ x\<close>; both handlers write \<open>$ x\<close>, because \<open>replace\<close> reads the new
  text as a replacement pattern.
\<close>

theorem edit_replacement_pattern_expanded:
  "editFile \<lparr>files = [''/w/a.txt'' \<mapsto> FileObj ''x x''],
              stats = \<lparr>linesWritten = 0, filesModified = {}, filesRead = {}, toolCalls = []\<rparr>,
              executed = []\<rparr>
       ''/w/a.txt'' ''x'' ''$$''
     = (EditDone ''/w/a.txt'' 1 1,
        \<lparr>files = [''/w/a.txt'' \<mapsto> FileObj ''$ x''],
         stats = \<lparr>linesWritten = 1, filesModified = {''/w/a.txt''}, filesRead = {}, toolCalls = []\<rparr>,
         executed = []\<rparr>)
   \<and> searchReplace (\<lambda>r p. r @ ''/'' @ p) [''/w''] [''/w/a.txt'' \<mapsto> FileObj ''x x'']
       ''a.txt'' ''x'' ''$$''
     = (SRSuccess, [''/w/a.txt'' \<mapsto> FileObj ''$ x''])
   \<and> ''$ x'' \<noteq> ''$$'' @ '' x''"
  by (simp add: editFile_def existsSync_def readFileSync_def writeFileSync_def
        searchReplace_def readFile_fs_def writeFile_fs_def str_includes_def replace_def
        line_count_def)

section \<open>The directory listing\<close>

lemma set_map_filter_iff: "e \<in> set (List.map_filter f xs) \<longleftrightarrow> (\<exists>x\<in>set xs. f x = Some e)"
  by (induction xs) (auto split: option.splits)

lemma set_insert_by: "set (insert_by cmp x xs) = insert x (set xs)"
  by (induction xs) auto

lemma set_array_sort: "set (array_sort cmp xs) = set xs"
  by (induction xs) (simp_all add: array_sort_def set_insert_by)

lemma length_insert_by: "length (insert_by cmp x xs) = Suc (length xs)"
  by (induction xs) auto

lemma length_array_sort: "length (array_sort cmp xs) = length xs"
  by (induction xs) (simp_all add: array_sort_def length_insert_by)

lemma sorted_insert_by:
  assumes total: "\<And>a b. cmp a b \<le> 0 \<or> cmp b a \<le> 0"
    and trans: "\<And>a b c. cmp a b \<le> 0 \<Longrightarrow> cmp b c \<le> 0 \<Longrightarrow> cmp a c \<le> 0"
    and "sorted_wrt (\<lambda>a b. cmp a b \<le> 0) xs"
  shows "sorted_wrt (\<lambda>a b. cmp a b \<le> 0) (insert_by cmp x xs)"
  using assms(3)
proof (induction xs)
  case Nil
  then show ?case by simp
next
  case (Cons y ys)
  show ?case
  proof (cases "cmp x y \<le> 0")
    case True
    then have "\<forall>z\<in>set ys. cmp x z \<le> 0" using Cons.prems trans by auto
    with True Cons.prems show ?thesis by simp
  next
    case False
    then have "cmp y x \<le> 0" using total by blast
    with False Cons show ?thesis by (auto simp: set_insert_by)
  qed
qed

lemma sorted_array_sort:
  assumes "\<And>a b. cmp a b \<le> 0 \<or> cmp b a \<le> 0"
    and "\<And>a b c. cmp a b \<le> 0 \<Longrightarrow> cmp b c \<le> 0 \<Longrightarrow> cmp a c \<le> 0"
  shows "sorted_wrt (\<lambda>a b. cmp a b \<le> 0) (array_sort cmp xs)"
proof (induction xs)
  case Nil
  then show ?case by (simp add: array_sort_def)
next
  case (Cons x xs)
  have "array_sort cmp (x # xs) = insert_by cmp x (array_sort cmp xs)"
    by (simp add: array_sort_def)
  with Cons sorted_insert_by[of cmp, OF assms] show ?case by simp
qed

lemma compare_entries_total:
  assumes "\<And>a b. lc a b \<le> 0 \<or> lc b a \<le> 0"
  shows "compare_entries lc a b \<le> 0 \<or> compare_entries lc b a \<le> 0"
  using assms[of "name a" "name b"] by (cases "etype a"; cases "etype b") (auto simp: compare_entries_def)

lemma compare_entries_trans:
  assumes "\<And>a b c. lc a b \<le> 0 \<Longrightarrow> lc b c \<le> 0 \<Longrightarrow> lc a c \<le> 0"
    and "compare_entries lc a b \<le> 0" and "compare_entries lc b c \<le> 0"
  shows "compare_entries lc a c \<le> 0"
  using assms(2,3) assms(1)[of "name a" "name b" "name c"]
  by (cases "etype a"; cases "etype b"; cases "etype c") (auto simp: compare_entries_def split: if_splits)

lemma compare_entries_le:
  "compare_entries lc a b \<le> 0 \<Longrightarrow>
     (etype a = File \<longrightarrow> etype b = File) \<and> (etype a = etype b \<longrightarrow> lc (name a) (name b) \<le> 0)"
  by (cases "etype a"; cases "etype b") (auto simp: compare_entries_def split: if_splits)

lemma listDir_levels_ok:
  assumes "\<forall>a b. lc a b \<le> 0 \<or> lc b a \<le> 0"
    and "\<forall>a b c. lc a b \<le> 0 \<longrightarrow> lc b c \<le> 0 \<longrightarrow> lc a c \<le> 0"
  shows "\<forall>l\<in>set (levels (listDir pj lc recursive level dir items)). level_ok lc l"
  using assms
proof (induction pj lc recursive level dir items rule: listDir.induct)
  case (1 pj lc recursive level dir items)
  have total: "\<And>a b. lc a b \<le> 0 \<or> lc b a \<le> 0" using "1.prems"(1) by blast
  have trans: "\<And>a b c. lc a b \<le> 0 \<Longrightarrow> lc b c \<le> 0 \<Longrightarrow> lc a c \<le> 0"
    using "1.prems"(2) by blast
  show ?case
  proof (cases "level > 2")
    case True
    then show ?thesis by (simp add: listDir.simps levels_def level_ok_def)
  next
    case False
    define f where "f = (\<lambda>(item, node).
              if item \<in> set ignored_names then None
              else (case node of
                  NodeNoStat \<Rightarrow> None
                | NodeFile \<Rightarrow> Some (Entry item (pj dir item) File None)
                | NodeDirNoRead \<Rightarrow>
                    if recursive then
                      (if level + 1 > 2 then Some (Entry item (pj dir item) Folder (Some []))
                       else None)
                    else Some (Entry item (pj dir item) Folder None)
                | NodeDir sub \<Rightarrow>
                    Some (Entry item (pj dir item) Folder
                      (if recursive
                       then Some (listDir pj lc recursive (level + 1) (pj dir item) sub)
                       else None))))"
    have res: "listDir pj lc recursive level dir items
                 = array_sort (compare_entries lc) (List.map_filter f items)"
      using False by (subst listDir.simps) (simp add: f_def)
    let ?res = "array_sort (compare_entries lc) (List.map_filter f items)"
    have mem: "\<And>e. e \<in> set ?res \<Longrightarrow> \<exists>item node. (item, node) \<in> set items \<and> f (item, node) = Some e"
      by (auto simp: set_array_sort set_map_filter_iff)
    have top: "level_ok lc ?res"
    proof -
      have "\<forall>e\<in>set ?res. name e \<notin> set ignored_names"
      proof
        fix e assume "e \<in> set ?res"
        from mem[OF this] obtain item node where "f (item, node) = Some e" by blast
        then show "name e \<notin> set ignored_names"
          by (auto simp: f_def split: if_splits fsnode.splits)
      qed
      moreover have "sorted_wrt (\<lambda>a b. compare_entries lc a b \<le> 0) ?res"
      proof (rule sorted_array_sort)
        show "\<And>a b. compare_entries lc a b \<le> 0 \<or> compare_entries lc b a \<le> 0"
          by (rule compare_entries_total) (rule total)
        show "\<And>a b c. compare_entries lc a b \<le> 0 \<Longrightarrow> compare_entries lc b c \<le> 0
                \<Longrightarrow> compare_entries lc a c \<le> 0"
          by (rule compare_entries_trans[of lc]) (use trans in blast)+
      qed
      then have "sorted_wrt (\<lambda>a b. (etype a = File \<longrightarrow> etype b = File) \<and>
                        (etype a = etype b \<longrightarrow> lc (name a) (name b) \<le> 0)) ?res"
        by (rule sorted_wrt_mono_rel[rotated]) (use compare_entries_le in blast)
      ultimately show ?thesis by (simp add: level_ok_def)
    qed
    have sub: "\<And>e l. e \<in> set ?res \<Longrightarrow> l \<in> set (levels_below e) \<Longrightarrow> level_ok lc l"
    proof -
      fix e l assume e: "e \<in> set ?res" and l: "l \<in> set (levels_below e)"
      from mem[OF e] obtain item node where in_items: "(item, node) \<in> set items" and fe: "f (item, node) = Some e" by blast
      show "level_ok lc l"
      proof (cases node)
        case NodeFile
        with fe l show ?thesis by (auto simp: f_def split: if_splits)
      next
        case (NodeDir sub)
        show ?thesis
        proof (cases recursive)
          case True
          with fe NodeDir have notign: "item \<notin> set ignored_names"
            and e_eq: "e = Entry item (pj dir item) Folder (Some (listDir pj lc recursive (level + 1) (pj dir item) sub))"
            by (auto simp: f_def split: if_splits)
          from l e_eq have "l \<in> set (levels (listDir pj lc recursive (level + 1) (pj dir item) sub))"
            by (simp add: levels_def)
          with "1.IH"[OF False notign NodeDir True "1.prems"] show ?thesis by simp
        next
          case False
          with fe NodeDir l show ?thesis by (auto simp: f_def split: if_splits)
        qed
      next
        case NodeDirNoRead
        with fe l show ?thesis by (auto simp: f_def levels_def level_ok_def split: if_splits)
      next
        case NodeNoStat
        with fe show ?thesis by (auto simp: f_def split: if_splits)
      qed
    qed
    show ?thesis
      unfolding res using top sub by (auto simp: levels_def)
  qed
qed

lemma listDir_top_names:
  "name ` set (listDir pj lc recursive 0 dir items) =
     {item. \<exists>node. (item, node) \<in> set items \<and> item \<notin> set ignored_names \<and>
              node \<noteq> NodeNoStat \<and> (recursive \<longrightarrow> node \<noteq> NodeDirNoRead)}"
proof -
  define f where "f = (\<lambda>(item, node).
              if item \<in> set ignored_names then None
              else (case node of
                  NodeNoStat \<Rightarrow> None
                | NodeFile \<Rightarrow> Some (Entry item (pj dir item) File None)
                | NodeDirNoRead \<Rightarrow>
                    if recursive then
                      (if (0::nat) + 1 > 2 then Some (Entry item (pj dir item) Folder (Some []))
                       else None)
                    else Some (Entry item (pj dir item) Folder None)
                | NodeDir sub \<Rightarrow>
                    Some (Entry item (pj dir item) Folder
                      (if recursive
                       then Some (listDir pj lc recursive (0 + 1) (pj dir item) sub)
                       else None))))"
  have res: "listDir pj lc recursive 0 dir items
               = array_sort (compare_entries lc) (List.map_filter f items)"
    by (subst listDir.simps) (simp add: f_def)
  have kept: "\<And>item node. f (item, node) \<noteq> None \<longleftrightarrow>
                 item \<notin> set ignored_names \<and> node \<noteq> NodeNoStat \<and> (recursive \<longrightarrow> node \<noteq> NodeDirNoRead)"
    by (simp add: f_def split: fsnode.splits)
  have named: "\<And>item node e. f (item, node) = Some e \<Longrightarrow> name e = item"
    by (auto simp: f_def split: fsnode.splits if_splits)
  show ?thesis
  proof (intro set_eqI iffI)
    fix n assume "n \<in> name ` set (listDir pj lc recursive 0 dir items)"
    then obtain e where e: "e \<in> set (List.map_filter f items)" and n: "n = name e"
      unfolding res set_array_sort by blast
    from e obtain item node where in_items: "(item, node) \<in> set items" and fe: "f (item, node) = Some e"
      by (auto simp: set_map_filter_iff)
    from named[OF fe] n have "n = item" by simp
    moreover from kept[of item node] fe
    have "item \<notin> set ignored_names \<and> node \<noteq> NodeNoStat \<and> (recursive \<longrightarrow> node \<noteq> NodeDirNoRead)" by simp
    ultimately show "n \<in> {item. \<exists>node. (item, node) \<in> set items \<and> item \<notin> set ignored_names \<and>
              node \<noteq> NodeNoStat \<and> (recursive \<longrightarrow> node \<noteq> NodeDirNoRead)}"
      using in_items by blast
  next
    fix n assume "n \<in> {item. \<exists>node. (item, node) \<in> set items \<and> item \<notin> set ignored_names \<and>
              node \<noteq> NodeNoStat \<and> (recursive \<longrightarrow> node \<noteq> NodeDirNoRead)}"
    then obtain node where in_items: "(n, node) \<in> set items"
      and ok: "n \<notin> set ignored_names \<and> node \<noteq> NodeNoStat \<and> (recursive \<longrightarrow> node \<noteq> NodeDirNoRead)"
      by blast
    from kept[of n node] ok obtain e where fe: "f (n, node) = Some e" by blast
    then have "e \<in> set (List.map_filter f items)"
      using in_items by (auto simp: set_map_filter_iff)
    moreover from named[OF fe] have "name e = n" .
    ultimately show "n \<in> name ` set (listDir pj lc recursive 0 dir items)"
      unfolding res set_array_sort by force
  qed
qed

text \<open>
  The example of the specification: \<open>b.txt\<close>, the folder \<open>A\<close> and \<open>a.txt\<close>
  are listed as \<open>A\<close>, \<open>a.txt\<close>, \<open>b.txt\<close>.
\<close>

lemma listFiles_example: "listFiles (\<lambda>d i. d @ ''/'' @ i) (\<lambda>a b. if a < b then - 1 else if a = b then 0 else 1) ''/w'' False
   (NodeDir [(''b.txt'', NodeFile), (''A'', NodeDir []), (''a.txt'', NodeFile)])
  = ListOk [Entry ''A'' ''/w/A'' Folder None, Entry ''a.txt'' ''/w/a.txt'' File None, Entry ''b.txt'' ''/w/b.txt'' File None] 3"
  by (simp add: listFiles_def listDir.simps array_sort_def compare_entries_def ignored_names_def)

text \<open>
  C9, as amended. For a consistent \<open>localeCompare\<close> and a readable directory, the
  server's \<open>listFiles\<close> succeeds whatever its children are; at every depth it lists,
  no entry has an ignored name, no file stands before a folder, and folders and files
  are each in the order of \<open>localeCompare\<close>; the names listed at the top are those
  of the children that are not ignored and whose examination did not throw.
\<close>

theorem listFiles_filtered_sorted:
  assumes "\<forall>a b. lc a b \<le> 0 \<or> lc b a \<le> 0"
    and "\<forall>a b c. lc a b \<le> 0 \<longrightarrow> lc b c \<le> 0 \<longrightarrow> lc a c \<le> 0"
  shows "\<exists>files.
           listFiles pj lc dirPath recursive (NodeDir items) = ListOk files (length files)
         \<and> (\<forall>l\<in>set (levels files).
              (\<forall>e\<in>set l. name e \<notin> set ignored_names)
            \<and> sorted_wrt (\<lambda>a b. (etype a = File \<longrightarrow> etype b = File)
                               \<and> (etype a = etype b \<longrightarrow> lc (name a) (name b) \<le> 0)) l)
         \<and> name ` set files =
             {item. \<exists>node. (item, node) \<in> set items \<and> item \<notin> set ignored_names \<and>
                      node \<noteq> NodeNoStat \<and> (recursive \<longrightarrow> node \<noteq> NodeDirNoRead)}"
proof -
  let ?files = "listDir pj lc recursive 0 dirPath items"
  have "listFiles pj lc dirPath recursive (NodeDir items) = ListOk ?files (length ?files)"
    by (simp add: listFiles_def Let_def)
  moreover have "\<forall>l\<in>set (levels ?files). level_ok lc l"
    by (rule listDir_levels_ok[OF assms])
  moreover note listDir_top_names[of pj lc recursive dirPath items]
  ultimately show ?thesis unfolding level_ok_def by blast
qed

theorem listFiles_filtered_sorted_witness:
  "\<exists>files.
     listFiles (\<lambda>d i. d @ ''/'' @ i) (\<lambda>a b. if a < b then - 1 else if a = b then 0 else 1) ''/w'' True
       (NodeDir [(''b.txt'', NodeFile),
                 (''A'', NodeDir [(''node_modules'', NodeDir []), (''x.js'', NodeFile)]),
                 (''a.txt'', NodeFile), (''.git'', NodeDir []), (''broken'', NodeNoStat)])
       = ListOk files (length files)
     \<and> (\<forall>l\<in>set (levels files).
          (\<forall>e\<in>set l. name e \<notin> set ignored_names)
        \<and> sorted_wrt (\<lambda>a b. (etype a = File \<longrightarrow> etype b = File)
                           \<and> (etype a = etype b \<longrightarrow>
                                (if name a < name b then - 1 else if name a = name b then 0 else (1::int)) \<le> 0)) l)
     \<and> name ` set files =
         {item. \<exists>node. (item, node) \<in> set [(''b.txt'', NodeFile),
                 (''A'', NodeDir [(''node_modules'', NodeDir []), (''x.js'', NodeFile)]),
                 (''a.txt'', NodeFile), (''.git'', NodeDir []), (''broken'', NodeNoStat)]
               \<and> item \<notin> set ignored_names \<and>
                  node \<noteq> NodeNoStat \<and> (True \<longrightarrow> node \<noteq> NodeDirNoRead)}"
  by (rule listFiles_filtered_sorted) auto

text \<open>
  C9 as stated fails for the extension's \<open>list_dir\<close>: it returns the entries as
  the host reports them, \<open>node_modules\<close> included and \<open>b.txt\<close> before \<open>a.txt\<close>.
\<close>

theorem list_dir_ext_unfiltered:
  "listDir_ext (\<lambda>r p. r @ ''/'' @ p)
     (\<lambda>d. Inr [(''node_modules'', FT_Directory), (''b.txt'', FT_File), (''a.txt'', FT_File),
               (''src'', FT_Directory)])
     [''/w''] ''.''
   = LDEntries [(''node_modules'', ''dir''), (''b.txt'', ''file''), (''a.txt'', ''file''),
                (''src'', ''dir'')]
   \<and> ''node_modules'' \<in> set ignored_names"
  by (simp add: listDir_ext_def ignored_names_def)

section \<open>Split invariance of the stream decoders\<close>

lemma split_lines_nonempty: "split_lines s \<noteq> []"
  by (induction s) (auto split: list.splits)

lemma split_lines_append:
  "split_lines (a @ b) = butlast (split_lines a) @ split_lines (last (split_lines a) @ b)"
proof (induction a)
  case Nil
  then show ?case by simp
next
  case (Cons c cs)
  obtain l0 ls0 where cs: "split_lines cs = l0 # ls0"
    using split_lines_nonempty[of cs] by (cases "split_lines cs") auto
  show ?case
  proof (cases "c = CHR 0x0A")
    case True
    then show ?thesis using Cons cs by simp
  next
    case False
    show ?thesis
    proof (cases ls0)
      case Nil
      then show ?thesis using False Cons cs by simp
    next
      case (Cons l1 ls1)
      then show ?thesis using False Cons.IH cs by simp
    qed
  qed
qed

lemma butlast_split_lines_append:
  "butlast (split_lines (a @ b))
     = butlast (split_lines a) @ butlast (split_lines (last (split_lines a) @ b))"
  by (subst split_lines_append) (simp add: butlast_append split_lines_nonempty)

lemma last_split_lines_append:
  "last (split_lines (a @ b)) = last (split_lines (last (split_lines a) @ b))"
  by (subst split_lines_append) (simp add: split_lines_nonempty)

lemma client_lines_append:
  "client_lines parse (a @ b) seen = client_lines parse b (client_lines parse a seen)"
  by (induction a arbitrary: seen) (auto split: option.splits)

lemma streamAgent_snoc:
  "foldl (client_feed parse) ([], []) chunks
     = (last (split_lines (concat chunks)),
        client_lines parse (butlast (split_lines (concat chunks))) [])"
proof (induction chunks rule: rev_induct)
  case Nil
  then show ?case by simp
next
  case (snoc c cs)
  then show ?case
    by (simp add: client_feed_def Let_def butlast_split_lines_append[of "concat cs" c]
          last_split_lines_append[of "concat cs" c] client_lines_append)
qed

lemma streamAgent_split_invariant:
  "streamAgent parse chunks = streamAgent parse [concat chunks]"
  unfolding streamAgent_def by (simp only: streamAgent_snoc) simp

lemma process_lines_classify:
  "process_lines P (l # ls) st =
     (case classify P l of
        Skipped \<Rightarrow> process_lines P ls st
      | Sentinel \<Rightarrow> st
      | Event d \<Rightarrow> process_lines P ls (apply_delta st d))"
  by (simp add: classify_def Let_def split: option.splits)

lemma process_lines_no_event:
  "list_all (\<lambda>l. \<not> is_event (classify P l)) ls \<Longrightarrow> process_lines P ls st = st"
  by (induction ls) (auto simp: process_lines_classify is_event_def simp del: process_lines.simps(2) split: line_kind.splits)

lemma process_lines_append_sentinel:
  "\<exists>l\<in>set a. classify P l = Sentinel \<Longrightarrow> process_lines P (a @ b) st = process_lines P a st"
  by (induction a arbitrary: st) (auto simp: process_lines_classify simp del: process_lines.simps(2) split: line_kind.splits)

lemma process_lines_append_plain:
  "\<forall>l\<in>set a. classify P l \<noteq> Sentinel \<Longrightarrow>
     process_lines P (a @ b) st = process_lines P b (process_lines P a st)"
  by (induction a arbitrary: st) (auto simp: process_lines_classify simp del: process_lines.simps(2) split: line_kind.splits)

lemma no_event_after_sentinel_append_plain:
  "\<forall>l\<in>set a. classify P l \<noteq> Sentinel \<Longrightarrow>
     no_event_after_sentinel P (a @ b) = no_event_after_sentinel P b"
  by (induction a) auto

lemma no_event_after_sentinel_append_sentinel:
  "\<exists>l\<in>set a. classify P l = Sentinel \<Longrightarrow> no_event_after_sentinel P (a @ b) \<Longrightarrow>
     list_all (\<lambda>l. \<not> is_event (classify P l)) b"
  by (induction a) (auto split: if_splits)

lemma batches_no_event:
  "list_all (\<lambda>l. \<not> is_event (classify P l)) (concat bs) \<Longrightarrow>
     foldl (\<lambda>s b. process_lines P b s) st bs = st"
  by (induction bs arbitrary: st) (simp_all add: process_lines_no_event)

lemma batches_eq_whole:
  "no_event_after_sentinel P (concat bs) \<Longrightarrow>
     foldl (\<lambda>s b. process_lines P b s) st bs = process_lines P (concat bs) st"
proof (induction bs arbitrary: st)
  case Nil
  then show ?case by simp
next
  case (Cons b bs)
  show ?case
  proof (cases "\<exists>l\<in>set b. classify P l = Sentinel")
    case True
    from no_event_after_sentinel_append_sentinel[OF True] Cons.prems
    have "list_all (\<lambda>l. \<not> is_event (classify P l)) (concat bs)" by simp
    then have "foldl (\<lambda>s b. process_lines P b s) (process_lines P b st) bs = process_lines P b st"
      by (rule batches_no_event)
    then show ?thesis using process_lines_append_sentinel[OF True, of "concat bs" st] by simp
  next
    case False
    then have plain: "\<forall>l\<in>set b. classify P l \<noteq> Sentinel" by blast
    from Cons.prems no_event_after_sentinel_append_plain[OF plain, of "concat bs"]
    have "no_event_after_sentinel P (concat bs)" by simp
    from Cons.IH[OF this] show ?thesis
      using process_lines_append_plain[OF plain, of "concat bs" st] by simp
  qed
qed

lemma feeds_as_batches:
  "\<exists>bs. concat bs = butlast (split_lines (concat chunks))
       \<and> foldl (feed P) ([], d0) chunks
           = (last (split_lines (concat chunks)), foldl (\<lambda>s b. process_lines P b s) d0 bs)"
proof (induction chunks rule: rev_induct)
  case Nil
  have "concat ([]::string list list) = butlast (split_lines (concat []))" by simp
  then show ?case by (intro exI[of _ "[]"]) simp
next
  case (snoc c cs)
  from snoc obtain bs where bs: "concat bs = butlast (split_lines (concat cs))"
    and st: "foldl (feed P) ([], d0) cs
               = (last (split_lines (concat cs)), foldl (\<lambda>s b. process_lines P b s) d0 bs)"
    by blast
  let ?lines = "split_lines (last (split_lines (concat cs)) @ c)"
  have "concat (bs @ [butlast ?lines]) = butlast (split_lines (concat (cs @ [c])))"
    using bs by (simp add: butlast_split_lines_append[of "concat cs" c])
  moreover have "foldl (feed P) ([], d0) (cs @ [c])
      = (last (split_lines (concat (cs @ [c]))),
         foldl (\<lambda>s b. process_lines P b s) d0 (bs @ [butlast ?lines]))"
    by (simp add: st feed_def Let_def last_split_lines_append[of "concat cs" c])
  ultimately show ?case by blast
qed

lemma decode_stream_whole:
  assumes "complete_stream P (concat chunks)"
  shows "decode_stream P p0 chunks
           = (last (split_lines (concat chunks)),
              process_lines P (butlast (split_lines (concat chunks)))
                \<lparr>fullContent = [], toolCalls_acc = [], posted = p0\<rparr>)"
proof -
  from feeds_as_batches[of chunks P "\<lparr>fullContent = [], toolCalls_acc = [], posted = p0\<rparr>"]
  obtain bs where
    bs: "concat bs = butlast (split_lines (concat chunks))"
    and st: "foldl (feed P) ([], \<lparr>fullContent = [], toolCalls_acc = [], posted = p0\<rparr>) chunks
           = (last (split_lines (concat chunks)),
              foldl (\<lambda>s b. process_lines P b s)
                \<lparr>fullContent = [], toolCalls_acc = [], posted = p0\<rparr> bs)" by blast
  from assms bs have "no_event_after_sentinel P (concat bs)" by (simp add: complete_stream_def)
  from batches_eq_whole[OF this] st bs show ?thesis by (simp add: decode_stream_def)
qed

text \<open>
  The hypothesis of completeness is needed for the extension's decoder: the sentinel
  only ends the loop over the lines of one read, so an event that follows the sentinel is
  dropped when it arrives in the same read and processed when it arrives in a later one.
\<close>

lemma decoder_event_after_sentinel:
  \<open>snd (decode_stream
          (\<lambda>s. if s = ''{"choices":[{"delta":{"content":"Hi"}}]}''
               then Some \<lparr>d_content = ''Hi'', d_tool_calls = []\<rparr> else None) []
          [''data: [DONE]'' @ [CHR 0x0A], ''data: {"choices":[{"delta":{"content":"Hi"}}]}'' @ [CHR 0x0A]])
     = \<lparr>fullContent = ''Hi'', toolCalls_acc = [], posted = [M_content ''Hi'']\<rparr>
   \<and> snd (decode_stream
          (\<lambda>s. if s = ''{"choices":[{"delta":{"content":"Hi"}}]}''
               then Some \<lparr>d_content = ''Hi'', d_tool_calls = []\<rparr> else None) []
          [''data: [DONE]'' @ [CHR 0x0A] @ ''data: {"choices":[{"delta":{"content":"Hi"}}]}'' @ [CHR 0x0A]])
     = \<lparr>fullContent = [], toolCalls_acc = [], posted = []\<rparr>\<close>
  by (simp add: decode_stream_def feed_def trim_def is_space_def startsWith_def replace_def
        apply_delta_def)

text \<open>
  C8. For a complete stream (no event after the sentinel line) cut into chunks in any
  way, the extension's decoder ends with the same buffer, the same text, the same
  accumulated tool calls and the same posted messages (the content deltas among them,
  in order) as on the stream in one chunk; the web client's reader passes the same
  events to \<open>onChunk\<close>, whatever the stream. Chunks are pieces of text: the
  reassembly of characters cut by a chunk boundary is \<open>TextDecoder\<close>'s.
\<close>

theorem decoder_split_invariant:
  assumes "complete_stream P (concat chunks)"
  shows "decode_stream P p0 chunks = decode_stream P p0 [concat chunks]
       \<and> streamAgent parse chunks = streamAgent parse [concat chunks]"
proof -
  have "complete_stream P (concat [concat chunks])" using assms by simp
  from decode_stream_whole[OF assms, of p0] decode_stream_whole[OF this, of p0]
  show ?thesis using streamAgent_split_invariant[of parse chunks] by simp
qed

theorem decoder_split_invariant_witness:
  \<open>decode_stream
      (\<lambda>s. if s = ''{"choices":[{"delta":{"content":"Hi"}}]}''
             then Some \<lparr>d_content = ''Hi'', d_tool_calls = []\<rparr>
           else if s = ''{"choices":[{"delta":{"tool_calls":[{"index":0,"id":"c1","function":{"name":"list_dir","arguments":"{}"}}]}}]}''
             then Some \<lparr>d_content = [], d_tool_calls =
                    [\<lparr>tc_index = 0, tc_id = Some ''c1'', tc_name = ''list_dir'', tc_arguments = ''{}''\<rparr>]\<rparr>
           else None) []
      [''da'',
       ''ta: {"choices":[{"delta":{"content":"Hi"}}]}'' @ [CHR 0x0A, CHR 0x0A] @ ''data: {"choices":[{"delta":{"tool_calls":[{"index":0,"id":"c1","function":{"name":"list_dir","argum'',
       ''ents":"{}"}}]}}]}'' @ [CHR 0x0A, CHR 0x0A] @ ''data: [DONE]'' @ [CHR 0x0A, CHR 0x0A]]
    = ([], \<lparr>fullContent = ''Hi'',
            toolCalls_acc = [Some \<lparr>acc_id = Some ''c1'', acc_name = ''list_dir'', acc_arguments = ''{}''\<rparr>],
            posted = [M_content ''Hi'', M_tool_call ''list_dir'']\<rparr>)
   \<and> streamAgent
      (\<lambda>s. if s = ''{"choices":[{"delta":{"content":"Hi"}}]}''
             then Some \<lparr>d_content = ''Hi'', d_tool_calls = []\<rparr>
           else if s = ''{"choices":[{"delta":{"tool_calls":[{"index":0,"id":"c1","function":{"name":"list_dir","arguments":"{}"}}]}}]}''
             then Some \<lparr>d_content = [], d_tool_calls =
                    [\<lparr>tc_index = 0, tc_id = Some ''c1'', tc_name = ''list_dir'', tc_arguments = ''{}''\<rparr>]\<rparr>
           else None)
      [''da'',
       ''ta: {"choices":[{"delta":{"content":"Hi"}}]}'' @ [CHR 0x0A, CHR 0x0A] @ ''data: {"choices":[{"delta":{"tool_calls":[{"index":0,"id":"c1","function":{"name":"list_dir","argum'',
       ''ents":"{}"}}]}}]}'' @ [CHR 0x0A, CHR 0x0A] @ ''data: [DONE]'' @ [CHR 0x0A, CHR 0x0A]]
    = ([], [\<lparr>d_content = ''Hi'', d_tool_calls = []\<rparr>,
            \<lparr>d_content = [], d_tool_calls =
                    [\<lparr>tc_index = 0, tc_id = Some ''c1'', tc_name = ''list_dir'', tc_arguments = ''{}''\<rparr>]\<rparr>])\<close>
proof -
  let ?P = \<open>\<lambda>s. if s = ''{"choices":[{"delta":{"content":"Hi"}}]}''
             then Some \<lparr>d_content = ''Hi'', d_tool_calls = []\<rparr>
           else if s = ''{"choices":[{"delta":{"tool_calls":[{"index":0,"id":"c1","function":{"name":"list_dir","arguments":"{}"}}]}}]}''
             then Some \<lparr>d_content = [], d_tool_calls =
                    [\<lparr>tc_index = 0, tc_id = Some ''c1'', tc_name = ''list_dir'', tc_arguments = ''{}''\<rparr>]\<rparr>
           else None\<close>
  let ?chunks = \<open>[''da'',
       ''ta: {"choices":[{"delta":{"content":"Hi"}}]}'' @ [CHR 0x0A, CHR 0x0A] @ ''data: {"choices":[{"delta":{"tool_calls":[{"index":0,"id":"c1","function":{"name":"list_dir","argum'',
       ''ents":"{}"}}]}}]}'' @ [CHR 0x0A, CHR 0x0A] @ ''data: [DONE]'' @ [CHR 0x0A, CHR 0x0A]]\<close>
  have complete: "complete_stream ?P (concat ?chunks)"
    by (simp add: complete_stream_def classify_def is_event_def trim_def is_space_def
          startsWith_def replace_def)
  have whole: "decode_stream ?P [] [concat ?chunks]
                 = ([], \<lparr>fullContent = ''Hi'',
            toolCalls_acc = [Some \<lparr>acc_id = Some ''c1'', acc_name = ''list_dir'', acc_arguments = ''{}''\<rparr>],
            posted = [M_content ''Hi'', M_tool_call ''list_dir'']\<rparr>)"
    by (simp add: decode_stream_def feed_def trim_def is_space_def startsWith_def replace_def
          apply_delta_def apply_tool_call_def array_get_def array_set_def truthy_def)
  have client: "streamAgent ?P [concat ?chunks]
                 = ([], [\<lparr>d_content = ''Hi'', d_tool_calls = []\<rparr>,
            \<lparr>d_content = [], d_tool_calls =
                    [\<lparr>tc_index = 0, tc_id = Some ''c1'', tc_name = ''list_dir'', tc_arguments = ''{}''\<rparr>]\<rparr>])"
    by (simp add: streamAgent_def client_feed_def startsWith_def)
  from decoder_split_invariant[OF complete, of "[]" ?P] whole client
  show ?thesis by (simp only:)
qed

section \<open>Edits in secure mode\<close>

lemma secure_is_the_default: "securityMode (new_provider None folders fs) = Secure"
  by (simp add: new_provider_def)

text \<open>
  In secure mode \<open>edit_file\<close> writes nothing. With a workspace folder open its result is
  \<open>pending\<close>, with the resolved path, and the proposed content is in the table of
  pending edits under the path as the tool received it.
\<close>

lemma edit_file_secure_writes_nothing:
  assumes "securityMode st = Secure"
  shows "xfiles (snd (editFile_ext path_resolve st fpath codeEdit)) = xfiles st
       \<and> (workspaceFolders st = root # others \<longrightarrow>
            fst (editFile_ext path_resolve st fpath codeEdit) = EF_Pending (path_resolve root fpath)
          \<and> map_option pe_newContent
               (map_of (pendingEdits (snd (editFile_ext path_resolve st fpath codeEdit))) fpath)
              = Some codeEdit
          \<and> log (snd (editFile_ext path_resolve st fpath codeEdit))
              = log st @ [Post (M_edit_pending (path_resolve root fpath))])"
  using assms
  by (cases "workspaceFolders st") (simp_all add: editFile_ext_def Let_def update_conv')

text \<open>
  Among the messages of the webview, only \<open>approveEdit\<close> and \<open>approveAll\<close> change a
  file.
\<close>

lemma only_approvals_write:
  assumes ch: "xfiles (onDidReceiveMessage os Uri_file st data) \<noteq> xfiles st"
  shows "(\<exists>f. data = E_approveEdit f) \<or> data = E_approveAll"
proof (cases data)
  case (E_terminalApproval i c)
  with ch show ?thesis
    by (auto simp: onDidReceiveMessage_def terminalApproval_def Let_def
          split: option.splits list.splits if_splits)
next
  case (E_setSecurityMode v)
  with ch show ?thesis by (simp add: onDidReceiveMessage_def)
next
  case (E_rejectEdit f)
  with ch show ?thesis by (simp add: onDidReceiveMessage_def rejectPendingEdit_def)
next
  case E_rejectAll
  with ch show ?thesis by (simp add: onDidReceiveMessage_def rejectAllEdits_def)
qed simp_all

text \<open>
  The card posted to the webview and the result of the tool name the resolved path; the
  table is keyed by the path as the tool received it. Where the two are the same (an
  absolute path that \<open>path.resolve\<close> and \<open>Uri.file\<close> leave as it is), the messages
  of the card do what the card says: rejecting removes the entry and leaves the files as
  they were, approving writes the proposed content to the file and removes the entry.
\<close>

lemma pending_edit_of_a_resolved_path:
  assumes "securityMode st = Secure" and "workspaceFolders st = root # others"
    and "path_resolve root fpath = fpath" and "Uri_file fpath = fpath"
    and "xfiles st fpath \<noteq> Some DirObj"
  shows "map_of (pendingEdits
           (onDidReceiveMessage os Uri_file (snd (editFile_ext path_resolve st fpath codeEdit))
              (E_rejectEdit (path_resolve root fpath)))) fpath = None
       \<and> xfiles (onDidReceiveMessage os Uri_file (snd (editFile_ext path_resolve st fpath codeEdit))
              (E_rejectEdit (path_resolve root fpath))) = xfiles st
       \<and> xfiles (onDidReceiveMessage os Uri_file (snd (editFile_ext path_resolve st fpath codeEdit))
              (E_approveEdit (path_resolve root fpath))) = (xfiles st)(fpath \<mapsto> FileObj codeEdit)
       \<and> map_of (pendingEdits
           (onDidReceiveMessage os Uri_file (snd (editFile_ext path_resolve st fpath codeEdit))
              (E_approveEdit (path_resolve root fpath)))) fpath = None"
  using assms
  by (simp add: editFile_ext_def Let_def onDidReceiveMessage_def rejectPendingEdit_def
        writePendingEdit_def writeFile_fs_def update_conv' delete_conv'
        split: option.splits fobj.splits)

text \<open>
  Where they differ, a message that names the resolved path does not find the entry
  (here the table holds no other entry under the resolved path): the rejected content
  stays in the table, and approving the card writes nothing.
\<close>

lemma pending_edit_keyed_by_argument:
  assumes "securityMode st = Secure" and "workspaceFolders st = root # others"
    and "path_resolve root fpath \<noteq> fpath"
    and "map_of (pendingEdits st) (path_resolve root fpath) = None"
  shows "map_option pe_newContent
           (map_of (pendingEdits
              (onDidReceiveMessage os Uri_file (snd (editFile_ext path_resolve st fpath codeEdit))
                 (E_rejectEdit (path_resolve root fpath)))) fpath)
         = Some codeEdit
       \<and> xfiles (onDidReceiveMessage os Uri_file (snd (editFile_ext path_resolve st fpath codeEdit))
              (E_approveEdit (path_resolve root fpath))) = xfiles st"
  using assms
  by (simp add: editFile_ext_def Let_def onDidReceiveMessage_def rejectPendingEdit_def
        writePendingEdit_def delete_conv' update_conv')

text \<open>
  C10. In secure mode, with the workspace folder \<open>/w\<close> open and the file
  \<open>/w/src/a.js\<close> holding \<open>old\<close>, the model calls \<open>edit_file\<close> with the relative
  path \<open>src/a.js\<close> and the content \<open>new\<close>. Nothing is written, the result is
  \<open>pending\<close> and the card names \<open>/w/src/a.js\<close>, with the file name
  \<open>a.js\<close>. The user rejects the card: the message names the path of the card, the
  table is keyed by \<open>src/a.js\<close>, so the webview is told the edit is rejected
  while the proposed content stays in the table; a message that names the file name of
  the card leaves it there as well. Approving the card would have written nothing. When
  the user later approves all pending edits, the rejected content is written, and to
  \<open>/src/a.js\<close>, the file \<open>Uri.file\<close> makes of the key, while
  \<open>/w/src/a.js\<close> still holds \<open>old\<close>.
\<close>

theorem rejected_edit_stays_pending:
  "(let path_resolve = (\<lambda>root p. if take 1 p = ''/'' then p else root @ ''/'' @ p);
        Uri_file = (\<lambda>p. if take 1 p = ''/'' then p else ''/'' @ p);
        os = (\<lambda>c d. Closed [] (Some 0));
        st = new_provider None [''/w''] [''/w/src/a.js'' \<mapsto> FileObj ''old''];
        called = editFile_ext path_resolve st ''src/a.js'' ''new'';
        rejected = onDidReceiveMessage os Uri_file (snd called) (E_rejectEdit ''/w/src/a.js'');
        rejected_by_name = onDidReceiveMessage os Uri_file (snd called) (E_rejectEdit ''a.js'');
        approved = onDidReceiveMessage os Uri_file (snd called) (E_approveEdit ''/w/src/a.js'');
        all_approved = onDidReceiveMessage os Uri_file rejected E_approveAll
    in (fst called, xfiles (snd called) = xfiles st, log (snd called),
        pendingEdits rejected, log rejected, xfiles rejected = xfiles st,
        pendingEdits rejected_by_name,
        approved = snd called,
        xfiles all_approved ''/w/src/a.js'', xfiles all_approved ''/src/a.js'',
        pendingEdits all_approved))
   = (EF_Pending ''/w/src/a.js'', True, [Post (M_edit_pending ''/w/src/a.js'')],
      [(''src/a.js'', \<lparr>pe_newContent = ''new'', pe_added = 0, pe_removed = 0\<rparr>)],
      [Post (M_edit_pending ''/w/src/a.js''), Post (M_edit_rejected ''/w/src/a.js'')], True,
      [(''src/a.js'', \<lparr>pe_newContent = ''new'', pe_added = 0, pe_removed = 0\<rparr>)],
      True,
      Some (FileObj ''old''), Some (FileObj ''new''),
      [])"
  by (simp add: new_provider_def editFile_ext_def readFile_fs_def line_count_def
        onDidReceiveMessage_def rejectPendingEdit_def writePendingEdit_def approveAllEdits_def
        writeFile_fs_def Let_def)

section \<open>The approve endpoint\<close>


section \<open>The round cap\<close>

subsection \<open>The server's loop\<close>

lemma foldl_srv_apply_delta_calls:
  "fst (snd (foldl srv_apply_delta (r, tcs, wr) deltas))
     = foldl (\<lambda>tcs d. foldl srv_apply_tool_call tcs (d_tool_calls d)) tcs deltas"
  by (induction deltas arbitrary: r tcs wr) (simp_all add: srv_apply_delta_def Let_def)

lemma run_calls_requests:
  "requests (final_chat (run_calls J ws H calls st)) = requests st"
  by (induction J ws H calls st rule: run_calls.induct)
     (auto simp: final_chat_def Let_def split: option.splits prod.splits sum.splits json_value.splits)

lemma call_returns_parse:
  "call_returns J H c \<Longrightarrow> \<exists>a. parse_arguments J c = Some a"
  by (auto simp: call_returns_def split: option.splits)

lemma call_returns_handler:
  assumes "call_returns J H c" and "parse_arguments J c = Some a" and "H (sc_name c) = Some h"
  shows "\<exists>result sv'. h a sv = (Inr result, sv')"
proof -
  from assms have "\<not> isl (fst (h a sv))" by (auto simp: call_returns_def)
  then show ?thesis by (cases "h a sv"; cases "fst (h a sv)") auto
qed

lemma run_calls_plain:
  assumes "\<forall>c\<in>set calls. sc_name c \<noteq> ''runCommand'' \<and> call_returns J H c"
  shows "\<exists>st'. run_calls J ws H calls st = Continue False st'"
  using assms
proof (induction calls arbitrary: st)
  case Nil
  then show ?case by simp
next
  case (Cons c calls)
  from Cons.prems have nm: "sc_name c \<noteq> ''runCommand''" and cr: "call_returns J H c" by auto
  from call_returns_parse[OF cr] obtain a where a: "parse_arguments J c = Some a" by blast
  from Cons.prems have rest: "\<forall>c\<in>set calls. sc_name c \<noteq> ''runCommand'' \<and> call_returns J H c" by simp
  show ?case
  proof (cases "H (sc_name c)")
    case None
    with Cons.IH[OF rest, of st] a nm show ?thesis by simp
  next
    case (Some h)
    from call_returns_handler[OF cr a Some, of "srv st"] obtain result sv' where
      h: "h a (srv st) = (Inr result, sv')" by blast
    from Cons.IH[OF rest] a nm Some h show ?thesis by simp
  qed
qed

lemma tool_call_infos_Some:
  "(\<forall>c\<in>set calls. parse_arguments J c \<noteq> None) \<Longrightarrow> \<exists>infos. tool_call_infos J calls = Some infos"
  by (induction calls) (auto split: option.splits)

lemma valid_calls_nonempty_length: "valid_calls tcs \<noteq> [] \<Longrightarrow> length tcs > 0"
  by (cases tcs) (auto simp: valid_calls_def)

lemma server_round_requests:
  "requests (final_chat (server_round J ws H llm st)) = Suc (requests st)"
proof -
  obtain deltas failure where l: "llm (chatMessages st) = (deltas, failure)" by (cases "llm (chatMessages st)")
  obtain r tcs wr where f: "foldl srv_apply_delta ([], [], written st) deltas = (r, tcs, wr)"
    by (cases "foldl srv_apply_delta ([], [], written st) deltas")
  show ?thesis
    using run_calls_requests[of J ws H "valid_calls tcs"]
    by (auto simp: server_round_def l f Let_def final_chat_def split: option.splits)
qed

lemma server_round_plain:
  assumes "every_round_calls_a_tool J H llm"
  shows "\<exists>st'. server_round J ws H llm st = Continue False st'"
proof -
  obtain deltas failure where l: "llm (chatMessages st) = (deltas, failure)" by (cases "llm (chatMessages st)")
  obtain r tcs wr where f: "foldl srv_apply_delta ([], [], written st) deltas = (r, tcs, wr)"
    by (cases "foldl srv_apply_delta ([], [], written st) deltas")
  from assms l have nofail: "failure = None"
    and ne: "stream_calls deltas \<noteq> []"
    and ok: "\<forall>c\<in>set (stream_calls deltas). sc_name c \<noteq> ''runCommand'' \<and> call_returns J H c"
    unfolding every_round_calls_a_tool_def by (metis fst_conv snd_conv)+
  have tcs: "valid_calls tcs = stream_calls deltas"
    using foldl_srv_apply_delta_calls[of "[]" "[]" "written st" deltas] f
    by (simp add: stream_calls_def)
  from ne tcs have len: "length tcs > 0" "length (valid_calls tcs) > 0"
    using valid_calls_nonempty_length[of tcs] by auto
  from ok tcs have "\<forall>c\<in>set (valid_calls tcs). parse_arguments J c \<noteq> None"
    using call_returns_parse by fastforce
  then obtain infos where infos: "tool_call_infos J (valid_calls tcs) = Some infos"
    using tool_call_infos_Some[of "valid_calls tcs" J] by auto
  from ok tcs have "\<forall>c\<in>set (valid_calls tcs). sc_name c \<noteq> ''runCommand'' \<and> call_returns J H c"
    by simp
  from run_calls_plain[OF this] show ?thesis
    using len infos nofail by (simp add: server_round_def l f Let_def)
qed

lemma server_loop_runs_to_cap:
  assumes "every_round_calls_a_tool J H llm"
  shows "loopCount \<le> maxLoops \<Longrightarrow>
         \<exists>st'. server_loop J ws H llm loopCount False st = Continue False st'
              \<and> requests st' = requests st + (maxLoops - loopCount)"
proof (induction "maxLoops - loopCount" arbitrary: loopCount st)
  case 0
  then show ?case by (simp add: server_loop.simps)
next
  case (Suc n)
  then have lt: "loopCount < maxLoops" by simp
  from server_round_plain[OF assms, of ws st] obtain st1 where
    r: "server_round J ws H llm st = Continue False st1" by blast
  from server_round_requests[of J ws H llm st] r have rq: "requests st1 = Suc (requests st)"
    by (simp add: final_chat_def)
  from Suc.hyps(2) have "n = maxLoops - (loopCount + 1)" by simp
  from Suc.hyps(1)[OF this, of st1] lt obtain st' where
    "server_loop J ws H llm (loopCount + 1) False st1 = Continue False st'"
    "requests st' = requests st1 + (maxLoops - (loopCount + 1))" by auto
  with lt r rq show ?case
    by (subst server_loop.simps) simp
qed

lemma server_loop_bound:
  "requests (final_chat (server_loop J ws H llm loopCount isDone st))
     \<le> requests st + (maxLoops - loopCount)"
proof (induction J ws H llm loopCount isDone st rule: server_loop.induct)
  case (1 J ws H llm loopCount isDone st)
  show ?case
  proof (cases "\<not> isDone \<and> loopCount < maxLoops")
    case False
    then show ?thesis by (subst server_loop.simps) (auto simp: final_chat_def)
  next
    case True
    show ?thesis
    proof (cases "server_round J ws H llm st")
      case (Thrown e st')
      with True server_round_requests[of J ws H llm st] show ?thesis
        by (subst server_loop.simps) (auto simp: final_chat_def)
    next
      case (Continue d st')
      with True server_round_requests[of J ws H llm st] "1.IH"[OF True Continue] show ?thesis
        by (subst server_loop.simps) (auto simp: final_chat_def)
    qed
  qed
qed

lemma agent_chat_bound:
  "requests (agent_chat J ws prompt H llm sv message history) \<le> maxLoops"
proof -
  let ?st0 = "\<lparr>chatMessages = [Msg_system prompt] @ drop (length history - 10) history @ [Msg_user message],
                 written = [],
                 srv = sv\<lparr>stats := \<lparr>linesWritten = 0, filesModified = {}, filesRead = {}, toolCalls = []\<rparr>\<rparr>,
                 requests = 0\<rparr>"
  from server_loop_bound[of J ws H llm 0 False ?st0]
  show ?thesis
    by (auto simp: agent_chat_def Let_def final_chat_def split: round_result.splits)
qed

lemma agent_chat_runs_to_cap:
  assumes "every_round_calls_a_tool J H llm"
  shows "requests (agent_chat J ws prompt H llm sv message history) = maxLoops
       \<and> (\<exists>w. written (agent_chat J ws prompt H llm sv message history)
                 = w @ [S_done (stats (srv (agent_chat J ws prompt H llm sv message history)))])"
proof -
  let ?st0 = "\<lparr>chatMessages = [Msg_system prompt] @ drop (length history - 10) history @ [Msg_user message],
                 written = [],
                 srv = sv\<lparr>stats := \<lparr>linesWritten = 0, filesModified = {}, filesRead = {}, toolCalls = []\<rparr>\<rparr>,
                 requests = 0\<rparr>"
  from server_loop_runs_to_cap[OF assms, of 0 ws ?st0] obtain st' where
    "server_loop J ws H llm 0 False ?st0 = Continue False st'" "requests st' = maxLoops"
    by auto
  then show ?thesis by (simp add: agent_chat_def Let_def)
qed

subsection \<open>The extension's loop\<close>

lemma step_thread_not_waiting:
  assumes "\<forall>i. th \<noteq> T_approval i"
  shows "\<forall>i. fst (step_thread pf st th) \<noteq> T_approval i"
  using assms
  by (cases th)
     (auto simp: step_thread_def Let_def split: sum.splits list_dir_result.splits option.splits)

lemma can_go_on_not_waiting:
  assumes "\<forall>i. th \<noteq> T_approval i" and "\<forall>r. th \<noteq> T_done r"
  shows "can_go_on pf st slot th"
  using assms by (cases th) (auto simp: can_go_on_def)

lemma length_run_threads: "length (fst (run_threads pf n st ths)) = length ths"
proof (induction pf n st ths rule: run_threads.induct)
  case (1 pf n st threads)
  show ?case
  proof (cases "ready pf st threads = []")
    case True
    then show ?thesis by (subst run_threads.simps) simp
  next
    case False
    with "1.IH"[OF False refl] show ?thesis
      by (subst run_threads.simps) (simp add: Let_def)
  qed
qed

lemma run_threads_completes:
  "k < length ths \<Longrightarrow> \<forall>i. ths ! k \<noteq> T_approval i \<Longrightarrow>
     \<exists>r. fst (run_threads pf n st ths) ! k = T_done r"
proof (induction pf n st ths rule: run_threads.induct)
  case (1 pf n st threads)
  show ?case
  proof (cases "ready pf st threads = []")
    case True
    have "\<exists>r. threads ! k = T_done r"
    proof (rule ccontr)
      assume "\<not> (\<exists>r. threads ! k = T_done r)"
      with "1.prems"(2) have "can_go_on pf st k (threads ! k)"
        using can_go_on_not_waiting[of "threads ! k" pf st k] by blast
      with "1.prems"(1) have "k \<in> set (ready pf st threads)" by (simp add: ready_def)
      with True show False by simp
    qed
    with True show ?thesis by (subst run_threads.simps) simp
  next
    case False
    define j where "j = (if pf_pick pf n (ready pf st threads) \<in> set (ready pf st threads)
                         then pf_pick pf n (ready pf st threads)
                         else hd (ready pf st threads))"
    let ?ths = "threads[j := fst (step_thread pf st (threads ! j))]"
    have len: "k < length ?ths" using "1.prems"(1) by simp
    have nw: "\<forall>i. ?ths ! k \<noteq> T_approval i"
    proof (cases "j = k")
      case True
      with "1.prems" step_thread_not_waiting[of "threads ! k" pf st] show ?thesis by simp
    next
      case False
      with "1.prems" show ?thesis by simp
    qed
    from "1.IH"[OF False j_def len nw] False show ?thesis
      by (subst run_threads.simps) (simp add: Let_def j_def)
  qed
qed

lemma begin_tool_not_terminal:
  "nm \<noteq> ''run_terminal_cmd'' \<Longrightarrow> \<forall>i. fst (begin_tool pf slot st nm a) \<noteq> T_approval i"
  by (auto simp: begin_tool_def createDiagram_def Let_def split: list.splits)

lemma start_thread_not_terminal:
  "xc_name tc \<noteq> ''run_terminal_cmd'' \<Longrightarrow> \<forall>i. fst (start_thread pf slot st tc) \<noteq> T_approval i"
  using begin_tool_not_terminal[of "xc_name tc" pf slot]
  by (auto simp: start_thread_def split: option.splits json_value.splits)

lemma start_thread_invalid_arguments:
  "pf_JSON_parse pf (xc_arguments tc) = None \<Longrightarrow>
     start_thread pf slot st tc = (T_done (R_error InvalidArguments), st)"
  by (simp add: start_thread_def)

lemma length_start_threads: "length (fst (start_threads pf slot st calls)) = length calls"
proof (induction calls arbitrary: slot st)
  case Nil
  then show ?case by simp
next
  case (Cons tc calls)
  obtain th st1 where s: "start_thread pf slot st tc = (th, st1)" by (cases "start_thread pf slot st tc")
  from Cons[of "Suc slot" st1] show ?case
    by (cases "start_threads pf (Suc slot) st1 calls") (simp add: s)
qed

lemma start_threads_not_terminal:
  "k < length calls \<Longrightarrow> xc_name (calls ! k) \<noteq> ''run_terminal_cmd'' \<Longrightarrow>
     \<forall>i. fst (start_threads pf slot st calls) ! k \<noteq> T_approval i"
proof (induction calls arbitrary: slot st k)
  case Nil
  then show ?case by simp
next
  case (Cons tc calls)
  obtain th st1 where s: "start_thread pf slot st tc = (th, st1)" by (cases "start_thread pf slot st tc")
  obtain ths st2 where r: "start_threads pf (Suc slot) st1 calls = (ths, st2)"
    by (cases "start_threads pf (Suc slot) st1 calls")
  show ?case
  proof (cases k)
    case 0
    with Cons.prems start_thread_not_terminal[of tc pf slot st] s r show ?thesis by simp
  next
    case (Suc k')
    with Cons.prems Cons.IH[of k' "Suc slot" st1] s r show ?thesis by simp
  qed
qed

lemma batch_call_completes:
  assumes "k < length calls" and "xc_name (calls ! k) \<noteq> ''run_terminal_cmd''"
  shows "\<exists>r. fst (run_threads pf n (snd (start_threads pf 0 st calls))
                     (fst (start_threads pf 0 st calls))) ! k = T_done r"
proof -
  from assms(1) have "k < length (fst (start_threads pf 0 st calls))"
    by (simp add: length_start_threads)
  from run_threads_completes[OF this start_threads_not_terminal[OF assms]] show ?thesis .
qed

lemma tool_messages_all_some:
  "length rs = length calls \<Longrightarrow> \<exists>ms. tool_messages calls (map Some rs) = Some ms"
proof (induction calls arbitrary: rs)
  case Nil
  then show ?case by simp
next
  case (Cons tc calls)
  then obtain r rs' where rs: "rs = r # rs'" by (cases rs) auto
  with Cons.prems Cons.IH[of rs'] show ?case by auto
qed

lemma run_batch_not_terminal:
  assumes "\<forall>tc\<in>set calls. xc_name tc \<noteq> ''run_terminal_cmd''"
  shows "\<exists>ms st'. run_batch pf st calls = (Some ms, st')"
proof -
  obtain ths st1 where s: "start_threads pf 0 st calls = (ths, st1)" by (cases "start_threads pf 0 st calls")
  obtain ths' st2 where r: "run_threads pf 0 st1 ths = (ths', st2)" by (cases "run_threads pf 0 st1 ths")
  from s have l: "length ths = length calls" using length_start_threads[of pf 0 st calls] by simp
  from r have l': "length ths' = length ths" using length_run_threads[of pf 0 st1 ths] by simp
  have "\<forall>k<length ths'. \<exists>res. ths' ! k = T_done res"
  proof (intro allI impI)
    fix k assume "k < length ths'"
    with l l' have k: "k < length calls" by simp
    with assms have "xc_name (calls ! k) \<noteq> ''run_terminal_cmd''" by simp
    from batch_call_completes[OF k this, of pf 0 st] s r show "\<exists>res. ths' ! k = T_done res" by simp
  qed
  then have "\<forall>k<length ths'. \<exists>res. map thread_result ths' ! k = Some res"
    by (auto simp: thread_result_def)
  then have "\<exists>rs. map thread_result ths' = map Some rs"
  proof -
    assume a: "\<forall>k<length ths'. \<exists>res. map thread_result ths' ! k = Some res"
    have "map thread_result ths' = map Some (map the (map thread_result ths'))"
      by (rule nth_equalityI) (use a in \<open>auto simp: \<close>)
    then show ?thesis by blast
  qed
  then obtain rs where rs: "map thread_result ths' = map Some rs" by blast
  then have "length rs = length calls" using l l' by (metis length_map)
  from tool_messages_all_some[OF this] obtain ms where "tool_messages calls (map Some rs) = Some ms" by blast
  then show ?thesis by (simp add: run_batch_def s r rs)
qed

lemma named_calls_nonempty_length: "named_calls tcs \<noteq> [] \<Longrightarrow> length tcs > 0"
  by (cases tcs) (auto simp: named_calls_def)

lemma x_round_requests:
  "x_requests (case x_round pf n run of End e r \<Rightarrow> r | Next d r \<Rightarrow> r) = Suc (x_requests run)"
  by (auto simp: x_round_def Let_def split: fetch_result.splits option.splits list.splits prod.splits)

lemma x_round_plain:
  assumes "x_every_round_calls_a_tool pf"
  shows "\<exists>run'. x_round pf n run = Next False run' \<and> x_requests run' = Suc (x_requests run)
               \<and> (\<exists>l. log (x_ext run') = l @ [Post M_done])"
proof -
  from assms obtain chunks where
    f: "pf_fetch pf (x_history run) = F_stream chunks"
    and ne: "named_calls (toolCalls_acc (snd (decode_stream (pf_parse_delta pf) [] chunks))) \<noteq> []"
    and nt: "\<forall>tc\<in>set (named_calls (toolCalls_acc (snd (decode_stream (pf_parse_delta pf) [] chunks)))).
            xc_name tc \<noteq> ''run_terminal_cmd''"
    unfolding x_every_round_calls_a_tool_def by blast
  let ?dec = "snd (decode_stream (pf_parse_delta pf) [] chunks)"
  let ?calls = "named_calls (toolCalls_acc ?dec)"
  from ne obtain tc tcs where calls: "?calls = tc # tcs" by (cases ?calls) auto
  from ne have len: "length (toolCalls_acc ?dec) > 0" by (rule named_calls_nonempty_length)
  let ?st1 = "(x_ext run)\<lparr>log := log (x_ext run) @ map Post (posted ?dec)\<rparr>"
  from run_batch_not_terminal[OF nt, of pf ?st1] obtain ms st2 where
    b: "run_batch pf ?st1 ?calls = (Some ms, st2)" by blast
  show ?thesis
    using f len calls b by (simp add: x_round_def Let_def)
qed

lemma runAgentLoop_runs_to_cap:
  assumes "x_every_round_calls_a_tool pf"
  shows "loopCount < 15 \<Longrightarrow>
         \<exists>run'. runAgentLoop pf loopCount False run = (X_finished, run')
              \<and> x_requests run' = x_requests run + (15 - loopCount)
              \<and> (\<exists>l. log (x_ext run') = l @ [Post M_done])"
proof (induction "15 - loopCount" arbitrary: loopCount run)
  case 0
  then show ?case by simp
next
  case (Suc n)
  from x_round_plain[OF assms, of "loopCount + 1" run] obtain run1 l1 where
    r: "x_round pf (loopCount + 1) run = Next False run1"
    and rq: "x_requests run1 = Suc (x_requests run)"
    and lg: "log (x_ext run1) = l1 @ [Post M_done]" by blast
  show ?case
  proof (cases "loopCount + 1 < 15")
    case True
    from Suc.hyps(2) have "n = 15 - (loopCount + 1)" by simp
    from Suc.hyps(1)[OF this True, of run1] obtain run' where
      "runAgentLoop pf (loopCount + 1) False run1 = (X_finished, run')"
      "x_requests run' = x_requests run1 + (15 - (loopCount + 1))"
      "\<exists>l. log (x_ext run') = l @ [Post M_done]" by blast
    with Suc.prems r rq show ?thesis
      by (subst runAgentLoop.simps) auto
  next
    case False
    then have "runAgentLoop pf (loopCount + 1) False run1 = (X_finished, run1)"
      by (subst runAgentLoop.simps) simp
    with Suc.prems r rq lg False show ?thesis
      by (subst runAgentLoop.simps) auto
  qed
qed

lemma runAgentLoop_bound:
  "x_requests (snd (runAgentLoop pf loopCount isDone run)) \<le> x_requests run + (15 - loopCount)"
proof (induction pf loopCount isDone run rule: runAgentLoop.induct)
  case (1 pf loopCount isDone run)
  show ?case
  proof (cases "\<not> isDone \<and> loopCount < 15")
    case False
    then show ?thesis by (subst runAgentLoop.simps) auto
  next
    case True
    show ?thesis
    proof (cases "x_round pf (loopCount + 1) run")
      case (End e run')
      with True x_round_requests[of pf "loopCount + 1" run] show ?thesis
        by (subst runAgentLoop.simps) auto
    next
      case (Next d run')
      with True x_round_requests[of pf "loopCount + 1" run] "1.IH"[OF True Next] show ?thesis
        by (subst runAgentLoop.simps) auto
    qed
  qed
qed

subsection \<open>Both loops\<close>

text \<open>
  C7, as amended. Neither loop sends more than 15 requests to the model. For a model
  that in every round emits at least one valid tool call and no call of the command
  tool, every call of the server having arguments that parse and a handler call that
  returns, each loop sends exactly 15 requests and ends; the last thing the server
  writes is the \<open>done\<close> event, and the last thing the extension posts is \<open>done\<close>,
  in whatever order the calls of a batch go on.
\<close>

theorem loops_stop_at_round_cap:
  "requests (agent_chat J ws prompt H llm sv message history) \<le> maxLoops
   \<and> maxLoops = 15
   \<and> (every_round_calls_a_tool J H llm \<longrightarrow>
        requests (agent_chat J ws prompt H llm sv message history) = maxLoops
      \<and> (\<exists>w. written (agent_chat J ws prompt H llm sv message history)
                = w @ [S_done (stats (srv (agent_chat J ws prompt H llm sv message history)))]))
   \<and> x_requests (snd (runAgentLoop pf 0 False run)) \<le> x_requests run + 15
   \<and> (x_every_round_calls_a_tool pf \<longrightarrow>
        fst (runAgentLoop pf 0 False run) = X_finished
      \<and> x_requests (snd (runAgentLoop pf 0 False run)) = x_requests run + 15
      \<and> (\<exists>l. log (x_ext (snd (runAgentLoop pf 0 False run))) = l @ [Post M_done]))"
proof (intro conjI impI)
  show "requests (agent_chat J ws prompt H llm sv message history) \<le> maxLoops"
    by (rule agent_chat_bound)
  show "maxLoops = 15" by (simp add: maxLoops_def)
  show "x_requests (snd (runAgentLoop pf 0 False run)) \<le> x_requests run + 15"
    using runAgentLoop_bound[of pf 0 False run] by simp
next
  assume h: "every_round_calls_a_tool J H llm"
  from agent_chat_runs_to_cap[OF h, of ws prompt sv message history]
  show "requests (agent_chat J ws prompt H llm sv message history) = maxLoops"
    and "\<exists>w. written (agent_chat J ws prompt H llm sv message history)
                = w @ [S_done (stats (srv (agent_chat J ws prompt H llm sv message history)))]"
    by simp_all
next
  assume h: "x_every_round_calls_a_tool pf"
  from runAgentLoop_runs_to_cap[OF h, of 0 run] obtain run' where
    r: "runAgentLoop pf 0 False run = (X_finished, run')"
       "x_requests run' = x_requests run + 15" "\<exists>l. log (x_ext run') = l @ [Post M_done]"
    by auto
  then show "fst (runAgentLoop pf 0 False run) = X_finished"
    and "x_requests (snd (runAgentLoop pf 0 False run)) = x_requests run + 15"
    and "\<exists>l. log (x_ext (snd (runAgentLoop pf 0 False run))) = l @ [Post M_done]"
    by simp_all
qed

theorem loops_stop_at_round_cap_witness:
  \<open>requests (agent_chat
       (\<lambda>s. if s = ''{"path":"/w"}'' then Some (JFields [(''path'', ''/w'')]) else None)
       ''/w'' ''prompt''
       (\<lambda>n. if n = ''listFiles''
             then Some (\<lambda>a sv. (Inr \<lparr>h_success = True, h_summary = Some ''Found 0 items in w'', h_body = []\<rparr>, sv))
             else None)
       (\<lambda>msgs. ([\<lparr>d_content = [], d_tool_calls =
                     [\<lparr>tc_index = 0, tc_id = Some ''c1'', tc_name = ''listFiles'',
                       tc_arguments = ''{"path":"/w"}''\<rparr>]\<rparr>], None))
       \<lparr>files = Map.empty,
        stats = \<lparr>linesWritten = 0, filesModified = {}, filesRead = {}, toolCalls = []\<rparr>,
        executed = []\<rparr>
       ''hi'' []) = 15
   \<and> x_requests (snd (runAgentLoop
       \<lparr>pf_JSON_parse = (\<lambda>s. if s = ''{}'' then Some (JFields []) else None),
        pf_parse_delta = (\<lambda>s. if s = ''{"choices":[{"delta":{"tool_calls":[{"index":0,"id":"c1","function":{"name":"list_dir","arguments":"{}"}}]}}]}''
             then Some \<lparr>d_content = [], d_tool_calls =
                    [\<lparr>tc_index = 0, tc_id = Some ''c1'', tc_name = ''list_dir'', tc_arguments = ''{}''\<rparr>]\<rparr>
             else None),
        pf_path_resolve = (\<lambda>r p. r @ ''/'' @ p),
        pf_readDirectory = (\<lambda>d. Inr []),
        pf_query = (\<lambda>n a fs. R_query []),
        pf_os = (\<lambda>c d. Closed [] (Some 0)),
        pf_clock = (\<lambda>n. ''1700000000000''),
        pf_user = (\<lambda>i. None),
        pf_pick = (\<lambda>n ks. hd ks),
        pf_fetch = (\<lambda>h. F_stream
           [''data: {"choices":[{"delta":{"tool_calls":[{"index":0,"id":"c1","function":{"name":"list_dir","arguments":"{}"}}]}}]}''
              @ [CHR 0x0A, CHR 0x0A] @ ''data: [DONE]'' @ [CHR 0x0A, CHR 0x0A]])\<rparr>
       0 False
       \<lparr>x_history = [X_user ''hi''],
        x_ext = \<lparr>workspaceFolders = [''/w''], xfiles = Map.empty, securityMode = Secure,
                 pendingEdits = [], pendingApprovals = [], approvalsAsked = 0, log = []\<rparr>,
        x_requests = 0\<rparr>)) = 15\<close>
proof -
  let ?J = \<open>\<lambda>s. if s = ''{"path":"/w"}'' then Some (JFields [(''path'', ''/w'')]) else None\<close>
  let ?H = \<open>\<lambda>n. if n = ''listFiles''
             then Some (\<lambda>(a::json_value) (sv::server). (Inr \<lparr>h_success = True, h_summary = Some ''Found 0 items in w'', h_body = []\<rparr> :: string + handler_result, sv))
             else None\<close>
  let ?llm = \<open>\<lambda>msgs::srv_msg list. ([\<lparr>d_content = [], d_tool_calls =
                     [\<lparr>tc_index = 0, tc_id = Some ''c1'', tc_name = ''listFiles'',
                       tc_arguments = ''{"path":"/w"}''\<rparr>]\<rparr>], None::string option)\<close>
  let ?pf = \<open>\<lparr>pf_JSON_parse = (\<lambda>s. if s = ''{}'' then Some (JFields []) else None),
        pf_parse_delta = (\<lambda>s. if s = ''{"choices":[{"delta":{"tool_calls":[{"index":0,"id":"c1","function":{"name":"list_dir","arguments":"{}"}}]}}]}''
             then Some \<lparr>d_content = [], d_tool_calls =
                    [\<lparr>tc_index = 0, tc_id = Some ''c1'', tc_name = ''list_dir'', tc_arguments = ''{}''\<rparr>]\<rparr>
             else None),
        pf_path_resolve = (\<lambda>r p. r @ ''/'' @ p),
        pf_readDirectory = (\<lambda>d. Inr []),
        pf_query = (\<lambda>n a fs. R_query []),
        pf_os = (\<lambda>c d. Closed [] (Some 0)),
        pf_clock = (\<lambda>n. ''1700000000000''),
        pf_user = (\<lambda>i. None),
        pf_pick = (\<lambda>n ks. hd ks),
        pf_fetch = (\<lambda>h. F_stream
           [''data: {"choices":[{"delta":{"tool_calls":[{"index":0,"id":"c1","function":{"name":"list_dir","arguments":"{}"}}]}}]}''
              @ [CHR 0x0A, CHR 0x0A] @ ''data: [DONE]'' @ [CHR 0x0A, CHR 0x0A]])\<rparr>\<close>
  have srv: "every_round_calls_a_tool ?J ?H ?llm"
    by (simp add: every_round_calls_a_tool_def stream_calls_def srv_apply_tool_call_def
          array_get_def array_set_def valid_calls_def parse_arguments_def call_returns_def)
  have ext: "x_every_round_calls_a_tool ?pf"
    by (simp add: x_every_round_calls_a_tool_def decode_stream_def feed_def trim_def is_space_def
          startsWith_def replace_def apply_delta_def apply_tool_call_def array_get_def
          array_set_def truthy_def named_calls_def)
  from loops_stop_at_round_cap[of ?J "''/w''" "''prompt''" ?H ?llm _ "''hi''" "[]" ?pf] srv ext
  show ?thesis by (simp add: maxLoops_def)
qed

text \<open>
  C7 as stated fails for a model whose tool call is \<open>runCommand\<close>: the server's loop
  stops at the approval boundary after one request.
\<close>

theorem run_command_round_is_last:
  \<open>requests (agent_chat
       (\<lambda>s. if s = ''{"command":"ls"}'' then Some (JFields [(''command'', ''ls'')]) else None)
       ''/w'' ''prompt'' (\<lambda>n. None)
       (\<lambda>msgs. ([\<lparr>d_content = [], d_tool_calls =
                     [\<lparr>tc_index = 0, tc_id = Some ''c1'', tc_name = ''runCommand'',
                       tc_arguments = ''{"command":"ls"}''\<rparr>]\<rparr>], None))
       \<lparr>files = Map.empty,
        stats = \<lparr>linesWritten = 0, filesModified = {}, filesRead = {}, toolCalls = []\<rparr>,
        executed = []\<rparr>
       ''hi'' []) = 1
   \<and> written (agent_chat
       (\<lambda>s. if s = ''{"command":"ls"}'' then Some (JFields [(''command'', ''ls'')]) else None)
       ''/w'' ''prompt'' (\<lambda>n. None)
       (\<lambda>msgs. ([\<lparr>d_content = [], d_tool_calls =
                     [\<lparr>tc_index = 0, tc_id = Some ''c1'', tc_name = ''runCommand'',
                       tc_arguments = ''{"command":"ls"}''\<rparr>]\<rparr>], None))
       \<lparr>files = Map.empty,
        stats = \<lparr>linesWritten = 0, filesModified = {}, filesRead = {}, toolCalls = []\<rparr>,
        executed = []\<rparr>
       ''hi'' [])
     = [S_tool_call [(''c1'', ''runCommand'', JFields [(''command'', ''ls'')])],
        S_approval_required ''c1'' (Some ''ls'') ''/w'',
        S_done \<lparr>linesWritten = 0, filesModified = {}, filesRead = {},
                toolCalls = [\<lparr>tl_name = ''runCommand'', tl_status = ''pending_approval'',
                              tl_message = None\<rparr>]\<rparr>]\<close>
  by (simp add: agent_chat_def server_loop.simps maxLoops_def server_round_def srv_apply_delta_def
        srv_apply_tool_call_def array_get_def array_set_def valid_calls_def parse_arguments_def
        arg_def push_tool_call_def)

text \<open>
  A handler call that throws ends the server's loop as well, with the error event: here
  the arguments of \<open>readFile\<close> are \<open>null\<close>, which the handler destructures before its
  \<open>try\<close>. The \<open>tool_call\<close> event is written before the call.
\<close>

lemma throwing_handler_ends_the_loop:
  \<open>(let out = agent_chat
       (\<lambda>s. if s = ''null'' then Some JNull else None)
       ''/w'' ''prompt''
       (\<lambda>n. if n = ''readFile''
             then Some (\<lambda>a sv. case a of
                                  JNull \<Rightarrow> (Inl ''TypeError'', sv)
                                | JFields f \<Rightarrow> (Inr \<lparr>h_success = False, h_summary = Some ''ENOENT'', h_body = []\<rparr>, sv))
             else None)
       (\<lambda>msgs. ([\<lparr>d_content = [], d_tool_calls =
                     [\<lparr>tc_index = 0, tc_id = Some ''c1'', tc_name = ''readFile'',
                       tc_arguments = ''null''\<rparr>]\<rparr>], None))
       \<lparr>files = Map.empty,
        stats = \<lparr>linesWritten = 0, filesModified = {}, filesRead = {}, toolCalls = []\<rparr>,
        executed = []\<rparr>
       ''hi'' []
    in (written out, requests out))
   = ([S_tool_call [(''c1'', ''readFile'', JNull)], S_error ''TypeError''], 1)\<close>
  by (simp add: agent_chat_def server_loop.simps maxLoops_def server_round_def srv_apply_delta_def
        srv_apply_tool_call_def array_get_def array_set_def valid_calls_def parse_arguments_def
        Let_def)

section \<open>Tool calls whose arguments do not parse\<close>

text \<open>
  In the extension a call whose arguments do not parse gets the result \<open>{ error }\<close>
  and leaves the state alone; the other calls of the batch are started as they would be
  without it, and the round goes on.
\<close>

lemma start_threads_invalid_arguments:
  assumes "pf_JSON_parse pf (xc_arguments tc) = None"
  shows "start_threads pf slot st (tc # rest)
           = (T_done (R_error InvalidArguments) # fst (start_threads pf (Suc slot) st rest),
              snd (start_threads pf (Suc slot) st rest))"
  using assms by (simp add: start_thread_def split: prod.splits)

lemma extension_round_survives_malformed_arguments:
  \<open>fst (run_batch
      \<lparr>pf_JSON_parse = (\<lambda>s. if s = ''{"target_file":"a.txt"}'' then Some (JFields [(''target_file'', ''a.txt'')])
                             else None),
       pf_parse_delta = (\<lambda>s. None),
       pf_path_resolve = (\<lambda>r p. r @ ''/'' @ p),
       pf_readDirectory = (\<lambda>d. Inr []),
       pf_query = (\<lambda>n a fs. R_query []),
       pf_os = (\<lambda>c d. Closed [] (Some 0)),
       pf_clock = (\<lambda>n. ''1700000000000''),
       pf_user = (\<lambda>i. None),
       pf_pick = (\<lambda>n ks. hd ks),
       pf_fetch = (\<lambda>h. F_abort)\<rparr>
      \<lparr>workspaceFolders = [''/w''], xfiles = [''/w/a.txt'' \<mapsto> FileObj ''x''], securityMode = Secure,
       pendingEdits = [], pendingApprovals = [], approvalsAsked = 0, log = []\<rparr>
      [\<lparr>xc_id = Some ''c1'', xc_name = ''read_file'', xc_arguments = ''{"target_file":''\<rparr>,
       \<lparr>xc_id = Some ''c2'', xc_name = ''delete_file'', xc_arguments = ''{"target_file":"a.txt"}''\<rparr>])
   = Some [X_tool (Some ''c1'') ''read_file'' (R_error InvalidArguments),
           X_tool (Some ''c2'') ''delete_file'' R_success]\<close>
  by (simp add: run_batch_def start_thread_def status_label_def begin_tool_def
        field_def arg_def run_threads.simps ready_def can_go_on_def step_thread_def
        thread_result_def Let_def)

text \<open>
  C4. On the server the model streams two tool calls, \<open>listFiles\<close> with well-formed
  arguments and \<open>readFile\<close> with the arguments \<open>{"path":\<close>, cut short. Building
  the \<open>tool_call\<close> event parses the arguments of every call, outside any
  \<open>try\<close> of its own, so the exception reaches the \<open>catch\<close> of the endpoint: the
  only event written is the error, no tool is run (not even \<open>listFiles\<close>), no tool
  message is fed back and no \<open>done\<close> event is written.
\<close>

theorem server_round_aborts_on_malformed_arguments:
  \<open>(let out = agent_chat
       (\<lambda>s. if s = ''{"path":"/w"}'' then Some (JFields [(''path'', ''/w'')]) else None)
       ''/w'' ''prompt''
       (\<lambda>n. if n = ''listFiles''
             then Some (\<lambda>a sv. (Inr \<lparr>h_success = True, h_summary = Some ''Found 0 items in w'', h_body = []\<rparr>, sv))
             else None)
       (\<lambda>msgs. ([\<lparr>d_content = [], d_tool_calls =
                     [\<lparr>tc_index = 0, tc_id = Some ''c1'', tc_name = ''listFiles'',
                       tc_arguments = ''{"path":"/w"}''\<rparr>,
                      \<lparr>tc_index = 1, tc_id = Some ''c2'', tc_name = ''readFile'',
                       tc_arguments = ''{"path":''\<rparr>]\<rparr>], None))
       \<lparr>files = Map.empty,
        stats = \<lparr>linesWritten = 0, filesModified = {}, filesRead = {}, toolCalls = []\<rparr>,
        executed = []\<rparr>
       ''hi'' []
    in (written out, requests out, chatMessages out, toolCalls (stats (srv out))))
   = ([S_error ''SyntaxError''], 1,
      [Msg_system ''prompt'', Msg_user ''hi'',
       Msg_assistant_calls
         [\<lparr>sc_id = ''c1'', sc_name = ''listFiles'', sc_arguments = ''{"path":"/w"}''\<rparr>,
          \<lparr>sc_id = ''c2'', sc_name = ''readFile'', sc_arguments = ''{"path":''\<rparr>]],
      [])\<close>
  by (simp add: agent_chat_def server_loop.simps maxLoops_def server_round_def srv_apply_delta_def
        srv_apply_tool_call_def array_get_def array_set_def valid_calls_def parse_arguments_def
        Let_def)

section \<open>A command in a batch of tool calls\<close>

lemma run_calls_halts_at_runCommand:
  assumes "\<forall>c\<in>set pre. sc_name c \<noteq> ''runCommand'' \<and> call_returns J H c"
    and "sc_name rc = ''runCommand''" and "parse_arguments J rc = Some (JFields a)"
  shows "\<exists>st'. run_calls J ws H pre st = Continue False st'
          \<and> run_calls J ws H (pre @ rc # post) st
              = Continue True
                  (st'\<lparr>written := written st' @
                         [S_approval_required (sc_id rc) (arg a ''command'')
                            (case arg a ''cwd'' of
                               None \<Rightarrow> ws
                             | Some d \<Rightarrow> if d = [] then ws else d)],
                       srv := push_tool_call
                                \<lparr>tl_name = sc_name rc, tl_status = ''pending_approval'',
                                 tl_message = None\<rparr> (srv st')\<rparr>)"
  using assms(1)
proof (induction pre arbitrary: st)
  case Nil
  then show ?case using assms(2,3) by simp
next
  case (Cons c pre)
  from Cons.prems have nm: "sc_name c \<noteq> ''runCommand''" and cr: "call_returns J H c" by auto
  from call_returns_parse[OF cr] obtain ac where ac: "parse_arguments J c = Some ac" by blast
  from Cons.prems have rest: "\<forall>c\<in>set pre. sc_name c \<noteq> ''runCommand'' \<and> call_returns J H c"
    by simp
  show ?case
  proof (cases "H (sc_name c)")
    case None
    with Cons.IH[OF rest, of st] ac nm show ?thesis by simp
  next
    case (Some h)
    from call_returns_handler[OF cr ac Some, of "srv st"] obtain result sv' where
      h: "h ac (srv st) = (Inr result, sv')" by blast
    let ?st1 = "st\<lparr>srv := push_tool_call
                                  \<lparr>tl_name = sc_name c,
                                   tl_status = (if h_success result then ''success'' else ''error''),
                                   tl_message = h_summary result\<rparr> sv',
                        written := written st @
                          [S_step (sc_name c) (h_success result) (h_summary result)],
                        chatMessages := chatMessages st @ [Msg_tool (sc_id c) result]\<rparr>"
    from Cons.IH[OF rest, of ?st1] ac nm Some h show ?thesis by simp
  qed
qed

lemma server_round_halts_at_runCommand:
  assumes llm: "llm (chatMessages st) = (deltas, None)"
    and stream: "foldl srv_apply_delta ([], [], written st) deltas = (fullReply, tcs, wr)"
    and calls: "valid_calls tcs = pre @ rc # post"
    and infos: "tool_call_infos J (pre @ rc # post) = Some infos"
    and pre: "\<forall>c\<in>set pre. sc_name c \<noteq> ''runCommand'' \<and> call_returns J H c"
    and rc: "sc_name rc = ''runCommand''" "parse_arguments J rc = Some (JFields a)"
  shows "\<exists>st'. run_calls J ws H pre
                 (st\<lparr>requests := Suc (requests st),
                     chatMessages := chatMessages st
                        @ (if fullReply \<noteq> [] then [Msg_assistant fullReply] else [])
                        @ [Msg_assistant_calls (pre @ rc # post)],
                     written := wr @ [S_tool_call infos]\<rparr>)
               = Continue False st'
          \<and> server_round J ws H llm st
              = Continue True
                  (st'\<lparr>written := written st' @
                         [S_approval_required (sc_id rc) (arg a ''command'')
                            (case arg a ''cwd'' of
                               None \<Rightarrow> ws
                             | Some d \<Rightarrow> if d = [] then ws else d)],
                       srv := push_tool_call
                                \<lparr>tl_name = sc_name rc, tl_status = ''pending_approval'',
                                 tl_message = None\<rparr> (srv st')\<rparr>)"
proof -
  let ?base = "st\<lparr>requests := Suc (requests st),
                     chatMessages := chatMessages st
                        @ (if fullReply \<noteq> [] then [Msg_assistant fullReply] else [])
                        @ [Msg_assistant_calls (pre @ rc # post)],
                     written := wr @ [S_tool_call infos]\<rparr>"
  from calls have len: "length tcs > 0"
    using valid_calls_nonempty_length[of tcs] by simp
  have round: "server_round J ws H llm st = run_calls J ws H (pre @ rc # post) ?base"
    using len calls infos by (simp add: server_round_def llm stream Let_def)
  from run_calls_halts_at_runCommand[OF pre rc, of ws ?base post] round
  show ?thesis by simp
qed

text \<open>A call on its own: starting it and letting it go on at once is the tool as a whole.\<close>

lemma edit_file_on_its_own:
  "(case begin_tool pf slot st ''edit_file'' a of
      (th, st1) \<Rightarrow> (thread_result (fst (step_thread pf st1 th)), snd (step_thread pf st1 th)))
   = (case editFile_ext (pf_path_resolve pf) st (field a ''target_file'') (field a ''code_edit'') of
        (EF_Thrown e, st') \<Rightarrow> (Some (R_error e), st')
      | (r, st') \<Rightarrow> (Some (R_edit r), st'))"
  by (cases "workspaceFolders st")
     (auto simp: begin_tool_def editFile_ext_def step_thread_def thread_result_def Let_def
           split: sum.splits)

lemma search_replace_on_its_own:
  "(case begin_tool pf slot st ''search_replace'' a of
      (th, st1) \<Rightarrow>
        (case step_thread pf st1 th of
           (th2, st2) \<Rightarrow> (thread_result (fst (step_thread pf st2 th2)), xfiles (snd (step_thread pf st2 th2)))))
   = (case searchReplace (pf_path_resolve pf) (workspaceFolders st) (xfiles st)
             (field a ''file_path'') (field a ''old_string'') (field a ''new_string'') of
        (SRThrown e, fs') \<Rightarrow> (Some (R_error e), fs')
      | (r, fs') \<Rightarrow> (Some (R_search_replace r), fs'))"
  by (cases "workspaceFolders st")
     (auto simp: begin_tool_def searchReplace_def step_thread_def thread_result_def Let_def
           split: sum.splits)

text \<open>
  The calls of a batch of the extension go on in the order the platform decides, and the
  outcome depends on it. Two \<open>search_replace\<close> calls on one file holding \<open>a b\<close>,
  one replacing \<open>a\<close> by \<open>A\<close> and one replacing \<open>b\<close> by \<open>B\<close>: when what
  the calls wait for comes about in the order it was asked for, both read \<open>a b\<close>,
  the second write wins and the file holds \<open>a B\<close>; when the first call is through
  before the second reads, the file holds \<open>A B\<close>. Both calls report success.
\<close>

lemma calls_of_a_batch_interleave:
  \<open>(let pf = (\<lambda>pick.
        \<lparr>pf_JSON_parse = (\<lambda>s. if s = ''1'' then Some (JFields [(''file_path'', ''a.txt''), (''old_string'', ''a''), (''new_string'', ''A'')])
                               else if s = ''2'' then Some (JFields [(''file_path'', ''a.txt''), (''old_string'', ''b''), (''new_string'', ''B'')])
                               else None),
         pf_parse_delta = (\<lambda>s. None),
         pf_path_resolve = (\<lambda>r p. r @ ''/'' @ p),
         pf_readDirectory = (\<lambda>d. Inr []),
         pf_query = (\<lambda>n a fs. R_query []),
         pf_os = (\<lambda>c d. Closed [] (Some 0)),
         pf_clock = (\<lambda>n. ''1700000000000''),
         pf_user = (\<lambda>i. None),
         pf_pick = pick,
         pf_fetch = (\<lambda>h. F_abort)\<rparr>);
        st = \<lparr>workspaceFolders = [''/w''], xfiles = [''/w/a.txt'' \<mapsto> FileObj ''a b''],
              securityMode = Secure, pendingEdits = [], pendingApprovals = [],
              approvalsAsked = 0, log = []\<rparr>;
        calls = [\<lparr>xc_id = Some ''c1'', xc_name = ''search_replace'', xc_arguments = ''1''\<rparr>,
                 \<lparr>xc_id = Some ''c2'', xc_name = ''search_replace'', xc_arguments = ''2''\<rparr>]
    in (xfiles (snd (run_batch (pf (\<lambda>n ks. n mod 2)) st calls)) ''/w/a.txt'',
        fst (run_batch (pf (\<lambda>n ks. n mod 2)) st calls),
        xfiles (snd (run_batch (pf (\<lambda>n ks. hd ks)) st calls)) ''/w/a.txt''))
   = (Some (FileObj ''a B''),
      Some [X_tool (Some ''c1'') ''search_replace'' (R_search_replace SRSuccess),
            X_tool (Some ''c2'') ''search_replace'' (R_search_replace SRSuccess)],
      Some (FileObj ''A B''))\<close>
  by (simp add: run_batch_def start_thread_def status_label_def begin_tool_def
        field_def arg_def run_threads.simps ready_def can_go_on_def step_thread_def
        thread_result_def readFile_fs_def writeFile_fs_def str_includes_def replace_def Let_def)

text \<open>
  C3, as amended. On the server, take a round whose stream amounts to a batch in which
  the arguments of every call parse, with a first \<open>runCommand\<close> whose arguments are
  not \<open>null\<close>, the calls before it going through (for each, the handler call, if
  there is a handler, returns). The round runs the calls before the command as it would
  without the rest, then writes the approval event, records the command as pending and
  ends the turn, the loop with it: what follows the command in the batch is announced in
  the \<open>tool_call\<close> event and in the assistant message, and is neither run nor
  recorded. In the extension every call of a batch that is not a terminal command runs
  to its result, wherever it stands in the batch, in whatever order the calls go on and
  whatever becomes of the approval of a command.
\<close>

theorem run_command_halts_server_batch:
  assumes "llm (chatMessages st) = (deltas, None)"
    and "foldl srv_apply_delta ([], [], written st) deltas = (fullReply, tcs, wr)"
    and "valid_calls tcs = pre @ rc # post"
    and "tool_call_infos J (pre @ rc # post) = Some infos"
    and "\<forall>c\<in>set pre. sc_name c \<noteq> ''runCommand'' \<and> call_returns J H c"
    and "sc_name rc = ''runCommand''" and "parse_arguments J rc = Some (JFields a)"
    and "loopCount < maxLoops"
    and "k < length xcalls" and "xc_name (xcalls ! k) \<noteq> ''run_terminal_cmd''"
  shows "(\<exists>st'. run_calls J ws H pre
                 (st\<lparr>requests := Suc (requests st),
                     chatMessages := chatMessages st
                        @ (if fullReply \<noteq> [] then [Msg_assistant fullReply] else [])
                        @ [Msg_assistant_calls (pre @ rc # post)],
                     written := wr @ [S_tool_call infos]\<rparr>)
               = Continue False st'
          \<and> server_round J ws H llm st
              = Continue True
                  (st'\<lparr>written := written st' @
                         [S_approval_required (sc_id rc) (arg a ''command'')
                            (case arg a ''cwd'' of
                               None \<Rightarrow> ws
                             | Some d \<Rightarrow> if d = [] then ws else d)],
                       srv := push_tool_call
                                \<lparr>tl_name = sc_name rc, tl_status = ''pending_approval'',
                                 tl_message = None\<rparr> (srv st')\<rparr>)
          \<and> server_loop J ws H llm loopCount False st = server_round J ws H llm st)
       \<and> (\<exists>r. fst (run_threads pf 0 (snd (start_threads pf 0 xst xcalls))
                      (fst (start_threads pf 0 xst xcalls))) ! k = T_done r)"
proof (intro conjI)
  from server_round_halts_at_runCommand[where llm = llm and st = st and ws = ws, OF assms(1-7)] obtain st' where
    pre: "run_calls J ws H pre
                 (st\<lparr>requests := Suc (requests st),
                     chatMessages := chatMessages st
                        @ (if fullReply \<noteq> [] then [Msg_assistant fullReply] else [])
                        @ [Msg_assistant_calls (pre @ rc # post)],
                     written := wr @ [S_tool_call infos]\<rparr>)
               = Continue False st'"
    and round: "server_round J ws H llm st
              = Continue True
                  (st'\<lparr>written := written st' @
                         [S_approval_required (sc_id rc) (arg a ''command'')
                            (case arg a ''cwd'' of
                               None \<Rightarrow> ws
                             | Some d \<Rightarrow> if d = [] then ws else d)],
                       srv := push_tool_call
                                \<lparr>tl_name = sc_name rc, tl_status = ''pending_approval'',
                                 tl_message = None\<rparr> (srv st')\<rparr>)"
    by blast
  have loop: "server_loop J ws H llm loopCount False st = server_round J ws H llm st"
    using assms(8) round
    by (subst server_loop.simps) (simp add: server_loop.simps[of _ _ _ _ _ True])
  from pre round loop
  show "\<exists>st'. run_calls J ws H pre
                 (st\<lparr>requests := Suc (requests st),
                     chatMessages := chatMessages st
                        @ (if fullReply \<noteq> [] then [Msg_assistant fullReply] else [])
                        @ [Msg_assistant_calls (pre @ rc # post)],
                     written := wr @ [S_tool_call infos]\<rparr>)
               = Continue False st'
          \<and> server_round J ws H llm st
              = Continue True
                  (st'\<lparr>written := written st' @
                         [S_approval_required (sc_id rc) (arg a ''command'')
                            (case arg a ''cwd'' of
                               None \<Rightarrow> ws
                             | Some d \<Rightarrow> if d = [] then ws else d)],
                       srv := push_tool_call
                                \<lparr>tl_name = sc_name rc, tl_status = ''pending_approval'',
                                 tl_message = None\<rparr> (srv st')\<rparr>)
          \<and> server_loop J ws H llm loopCount False st = server_round J ws H llm st"
    by blast
  show "\<exists>r. fst (run_threads pf 0 (snd (start_threads pf 0 xst xcalls))
                      (fst (start_threads pf 0 xst xcalls))) ! k = T_done r"
    by (rule batch_call_completes[OF assms(9,10)])
qed

theorem run_command_halts_server_batch_witness:
  \<open>server_loop
      (\<lambda>s. if s = ''{"path":"/w"}'' then Some (JFields [(''path'', ''/w'')])
             else if s = ''{"command":"ls"}'' then Some (JFields [(''command'', ''ls'')])
             else if s = ''{"path":"/w/a.txt"}'' then Some (JFields [(''path'', ''/w/a.txt'')])
             else None)
      ''/w''
      (\<lambda>n. if n = ''listFiles''
             then Some (\<lambda>a sv. (Inr \<lparr>h_success = True, h_summary = Some ''Found 1 items in w'', h_body = []\<rparr>, sv))
           else if n = ''deleteFile''
             then Some (\<lambda>a sv. (Inr \<lparr>h_success = True, h_summary = Some ''Deleted a.txt'', h_body = []\<rparr>,
                                 sv\<lparr>files := (files sv)(''/w/a.txt'' := None)\<rparr>))
           else None)
      (\<lambda>msgs. ([\<lparr>d_content = [], d_tool_calls =
                    [\<lparr>tc_index = 0, tc_id = Some ''c1'', tc_name = ''listFiles'', tc_arguments = ''{"path":"/w"}''\<rparr>,
                     \<lparr>tc_index = 1, tc_id = Some ''c2'', tc_name = ''runCommand'', tc_arguments = ''{"command":"ls"}''\<rparr>,
                     \<lparr>tc_index = 2, tc_id = Some ''c3'', tc_name = ''deleteFile'', tc_arguments = ''{"path":"/w/a.txt"}''\<rparr>]\<rparr>],
                None))
      0 False
      \<lparr>chatMessages = [Msg_user ''hi''], written = [],
       srv = \<lparr>files = [''/w/a.txt'' \<mapsto> FileObj ''x''],
              stats = \<lparr>linesWritten = 0, filesModified = {}, filesRead = {}, toolCalls = []\<rparr>,
              executed = []\<rparr>,
       requests = 0\<rparr>
    = Continue True
       \<lparr>chatMessages =
          [Msg_user ''hi'',
           Msg_assistant_calls
             [\<lparr>sc_id = ''c1'', sc_name = ''listFiles'', sc_arguments = ''{"path":"/w"}''\<rparr>,
              \<lparr>sc_id = ''c2'', sc_name = ''runCommand'', sc_arguments = ''{"command":"ls"}''\<rparr>,
              \<lparr>sc_id = ''c3'', sc_name = ''deleteFile'', sc_arguments = ''{"path":"/w/a.txt"}''\<rparr>],
           Msg_tool ''c1'' \<lparr>h_success = True, h_summary = Some ''Found 1 items in w'', h_body = []\<rparr>],
        written =
          [S_tool_call [(''c1'', ''listFiles'', JFields [(''path'', ''/w'')]),
                        (''c2'', ''runCommand'', JFields [(''command'', ''ls'')]),
                        (''c3'', ''deleteFile'', JFields [(''path'', ''/w/a.txt'')])],
           S_step ''listFiles'' True (Some ''Found 1 items in w''),
           S_approval_required ''c2'' (Some ''ls'') ''/w''],
        srv = \<lparr>files = [''/w/a.txt'' \<mapsto> FileObj ''x''],
               stats = \<lparr>linesWritten = 0, filesModified = {}, filesRead = {},
                        toolCalls = [\<lparr>tl_name = ''listFiles'', tl_status = ''success'',
                                      tl_message = Some ''Found 1 items in w''\<rparr>,
                                     \<lparr>tl_name = ''runCommand'', tl_status = ''pending_approval'',
                                      tl_message = None\<rparr>]\<rparr>,
               executed = []\<rparr>,
        requests = 1\<rparr>\<close>
proof -
  let ?J = \<open>\<lambda>s. if s = ''{"path":"/w"}'' then Some (JFields [(''path'', ''/w'')])
             else if s = ''{"command":"ls"}'' then Some (JFields [(''command'', ''ls'')])
             else if s = ''{"path":"/w/a.txt"}'' then Some (JFields [(''path'', ''/w/a.txt'')])
             else None\<close>
  let ?H = \<open>\<lambda>n. if n = ''listFiles''
             then Some (\<lambda>(a::json_value) sv. (Inr \<lparr>h_success = True, h_summary = Some ''Found 1 items in w'', h_body = []\<rparr> :: string + handler_result, sv))
           else if n = ''deleteFile''
             then Some (\<lambda>a sv. (Inr \<lparr>h_success = True, h_summary = Some ''Deleted a.txt'', h_body = []\<rparr>,
                                 sv\<lparr>files := (files sv)(''/w/a.txt'' := None)\<rparr>))
           else None\<close>
  let ?deltas = \<open>[\<lparr>d_content = [], d_tool_calls =
                    [\<lparr>tc_index = 0, tc_id = Some ''c1'', tc_name = ''listFiles'', tc_arguments = ''{"path":"/w"}''\<rparr>,
                     \<lparr>tc_index = 1, tc_id = Some ''c2'', tc_name = ''runCommand'', tc_arguments = ''{"command":"ls"}''\<rparr>,
                     \<lparr>tc_index = 2, tc_id = Some ''c3'', tc_name = ''deleteFile'', tc_arguments = ''{"path":"/w/a.txt"}''\<rparr>]\<rparr>]\<close>
  let ?llm = \<open>\<lambda>msgs::srv_msg list. (?deltas, None::string option)\<close>
  let ?c1 = \<open>\<lparr>sc_id = ''c1'', sc_name = ''listFiles'', sc_arguments = ''{"path":"/w"}''\<rparr>\<close>
  let ?c2 = \<open>\<lparr>sc_id = ''c2'', sc_name = ''runCommand'', sc_arguments = ''{"command":"ls"}''\<rparr>\<close>
  let ?c3 = \<open>\<lparr>sc_id = ''c3'', sc_name = ''deleteFile'', sc_arguments = ''{"path":"/w/a.txt"}''\<rparr>\<close>
  let ?infos = \<open>[(''c1'', ''listFiles'', JFields [(''path'', ''/w'')]),
                        (''c2'', ''runCommand'', JFields [(''command'', ''ls'')]),
                        (''c3'', ''deleteFile'', JFields [(''path'', ''/w/a.txt'')])]\<close>
  let ?st = \<open>\<lparr>chatMessages = [Msg_user ''hi''], written = [],
       srv = \<lparr>files = [''/w/a.txt'' \<mapsto> FileObj ''x''],
              stats = \<lparr>linesWritten = 0, filesModified = {}, filesRead = {}, toolCalls = []\<rparr>,
              executed = []\<rparr>,
       requests = 0\<rparr>\<close>
  have h1: "?llm (chatMessages ?st) = (?deltas, None)" by simp
  have h2: "foldl srv_apply_delta ([], [], written ?st) ?deltas = ([], [Some ?c1, Some ?c2, Some ?c3], [])"
    by (simp add: srv_apply_delta_def srv_apply_tool_call_def array_get_def array_set_def)
  have h3: "valid_calls [Some ?c1, Some ?c2, Some ?c3] = [?c1] @ ?c2 # [?c3]"
    by (simp add: valid_calls_def)
  have h4: "tool_call_infos ?J ([?c1] @ ?c2 # [?c3]) = Some ?infos"
    by (simp add: parse_arguments_def)
  have h5: "\<forall>c\<in>set [?c1]. sc_name c \<noteq> ''runCommand'' \<and> call_returns ?J ?H c"
    by (simp add: call_returns_def parse_arguments_def)
  have h6: "sc_name ?c2 = ''runCommand''" by simp
  have h7: "parse_arguments ?J ?c2 = Some (JFields [(''command'', ''ls'')])"
    by (simp add: parse_arguments_def)
  have h8: "0 < maxLoops" by (simp add: maxLoops_def)
  have h9: "0 < length [\<lparr>xc_id = None, xc_name = ''list_dir'', xc_arguments = ''{}''\<rparr>]" by simp
  have h10: "xc_name ([\<lparr>xc_id = None, xc_name = ''list_dir'', xc_arguments = ''{}''\<rparr>] ! 0) \<noteq> ''run_terminal_cmd''"
    by simp
  note t = run_command_halts_server_batch[where llm = ?llm and st = ?st and ws = "''/w''",
             OF h1 h2 h3 h4 h5 h6 h7 h8 h9 h10, THEN conjunct1]
  from t obtain st' where
    w: "run_calls ?J ''/w'' ?H [?c1]
                 (?st\<lparr>requests := Suc (requests ?st),
                     chatMessages := chatMessages ?st
                        @ (if ([]::string) \<noteq> [] then [Msg_assistant []] else [])
                        @ [Msg_assistant_calls ([?c1] @ ?c2 # [?c3])],
                     written := [] @ [S_tool_call ?infos]\<rparr>)
               = Continue False st'
      \<and> server_round ?J ''/w'' ?H ?llm ?st
              = Continue True
                  (st'\<lparr>written := written st' @
                         [S_approval_required (sc_id ?c2) (arg [(''command'', ''ls'')] ''command'')
                            (case arg [(''command'', ''ls'')] ''cwd'' of
                               None \<Rightarrow> ''/w''
                             | Some d \<Rightarrow> if d = [] then ''/w'' else d)],
                       srv := push_tool_call
                                \<lparr>tl_name = sc_name ?c2, tl_status = ''pending_approval'',
                                 tl_message = None\<rparr> (srv st')\<rparr>)
      \<and> server_loop ?J ''/w'' ?H ?llm 0 False ?st = server_round ?J ''/w'' ?H ?llm ?st" ..
  note pre = w[THEN conjunct1]
  from w[THEN conjunct2, THEN conjunct2] w[THEN conjunct2, THEN conjunct1]
  have loop: "server_loop ?J ''/w'' ?H ?llm 0 False ?st
              = Continue True
                  (st'\<lparr>written := written st' @
                         [S_approval_required (sc_id ?c2) (arg [(''command'', ''ls'')] ''command'')
                            (case arg [(''command'', ''ls'')] ''cwd'' of
                               None \<Rightarrow> ''/w''
                             | Some d \<Rightarrow> if d = [] then ''/w'' else d)],
                       srv := push_tool_call
                                \<lparr>tl_name = sc_name ?c2, tl_status = ''pending_approval'',
                                 tl_message = None\<rparr> (srv st')\<rparr>)"
    by (rule trans)
  from pre have "st' = \<lparr>chatMessages =
          [Msg_user ''hi'', Msg_assistant_calls [?c1, ?c2, ?c3],
           Msg_tool ''c1'' \<lparr>h_success = True, h_summary = Some ''Found 1 items in w'', h_body = []\<rparr>],
        written = [S_tool_call ?infos, S_step ''listFiles'' True (Some ''Found 1 items in w'')],
        srv = \<lparr>files = [''/w/a.txt'' \<mapsto> FileObj ''x''],
               stats = \<lparr>linesWritten = 0, filesModified = {}, filesRead = {},
                        toolCalls = [\<lparr>tl_name = ''listFiles'', tl_status = ''success'',
                                      tl_message = Some ''Found 1 items in w''\<rparr>]\<rparr>,
               executed = []\<rparr>,
        requests = 1\<rparr>"
    by (simp add: parse_arguments_def push_tool_call_def)
  with loop show ?thesis by (simp add: arg_def push_tool_call_def)
qed

text \<open>
  C3 as stated fails in the extension: in secure mode, with a user who never answers, the
  batch of a terminal command followed by \<open>delete_file\<close> never completes, and yet the
  file is deleted and the status line of \<open>delete_file\<close> is posted after the approval
  card.
\<close>

theorem extension_starts_calls_after_command:
  \<open>(let pf = \<lparr>pf_JSON_parse = (\<lambda>s. if s = ''{"command":"ls","is_background":false}'' then Some (JFields [(''command'', ''ls'')])
                             else if s = ''{"target_file":"a.txt"}'' then Some (JFields [(''target_file'', ''a.txt'')])
                             else None),
       pf_parse_delta = (\<lambda>s. None),
       pf_path_resolve = (\<lambda>r p. r @ ''/'' @ p),
       pf_readDirectory = (\<lambda>d. Inr []),
       pf_query = (\<lambda>n a fs. R_query []),
       pf_os = (\<lambda>c d. Closed [] (Some 0)),
       pf_clock = (\<lambda>n. ''1700000000000''),
       pf_user = (\<lambda>i. None),
       pf_pick = (\<lambda>n ks. hd ks),
       pf_fetch = (\<lambda>h. F_abort)\<rparr>;
        st = \<lparr>workspaceFolders = [''/w''], xfiles = [''/w/a.txt'' \<mapsto> FileObj ''x''], securityMode = Secure,
       pendingEdits = [], pendingApprovals = [], approvalsAsked = 0, log = []\<rparr>;
        calls = [\<lparr>xc_id = Some ''c1'', xc_name = ''run_terminal_cmd'',
         xc_arguments = ''{"command":"ls","is_background":false}''\<rparr>,
       \<lparr>xc_id = Some ''c2'', xc_name = ''delete_file'', xc_arguments = ''{"target_file":"a.txt"}''\<rparr>]
    in (fst (run_batch pf st calls),
        xfiles (snd (run_batch pf st calls)) ''/w/a.txt'',
        log (snd (run_batch pf st calls)),
        fst (run_threads pf 0 (snd (start_threads pf 0 st calls)) (fst (start_threads pf 0 st calls)))))
   = (None, None,
      [Post (M_tool_executing ''Running run_terminal_cmd...''),
       Post (M_approval ''1700000000000'' ''ls''),
       Post (M_tool_executing ''Running delete_file...'')],
      [T_approval ''1700000000000'', T_done R_success])\<close>
  by (simp add: run_batch_def start_thread_def status_label_def begin_tool_def runTerminalCommand_def
        field_def arg_def run_threads.simps ready_def can_go_on_def step_thread_def
        thread_result_def update_conv' Let_def)

section \<open>The approval gate\<close>

lemma run_calls_executed:
  assumes "\<forall>n h a s. H n = Some h \<longrightarrow> executed (snd (h a s)) = executed s"
  shows "executed (srv (final_chat (run_calls J ws H calls st))) = executed (srv st)"
proof (induction calls arbitrary: st)
  case Nil
  then show ?case by (simp add: final_chat_def)
next
  case (Cons c calls)
  show ?case
  proof (cases "parse_arguments J c")
    case None
    then show ?thesis by (simp add: final_chat_def)
  next
    case (Some a)
    show ?thesis
    proof (cases "sc_name c = ''runCommand''")
      case True
      with Some show ?thesis by (cases a) (simp_all add: final_chat_def push_tool_call_def)
    next
      case False
      show ?thesis
      proof (cases "H (sc_name c)")
        case None
        with Some False Cons.IH[of st] show ?thesis by simp
      next
        case (Some h)
        obtain res sv' where h: "h a (srv st) = (res, sv')" by (cases "h a (srv st)")
        from assms Some h have ex: "executed sv' = executed (srv st)"
          by (metis snd_conv)
        show ?thesis
        proof (cases res)
          case (Inl e)
          with \<open>parse_arguments J c = Some a\<close> False Some h ex show ?thesis
            by (simp add: final_chat_def)
        next
          case (Inr result)
          let ?st1 = "st\<lparr>srv := push_tool_call
                                  \<lparr>tl_name = sc_name c,
                                   tl_status = (if h_success result then ''success'' else ''error''),
                                   tl_message = h_summary result\<rparr> sv',
                        written := written st @
                          [S_step (sc_name c) (h_success result) (h_summary result)],
                        chatMessages := chatMessages st @ [Msg_tool (sc_id c) result]\<rparr>"
          from Cons.IH[of ?st1] ex \<open>parse_arguments J c = Some a\<close> False Some h Inr
          show ?thesis by (simp add: push_tool_call_def)
        qed
      qed
    qed
  qed
qed

lemma server_round_executed:
  assumes "\<forall>n h a s. H n = Some h \<longrightarrow> executed (snd (h a s)) = executed s"
  shows "executed (srv (final_chat (server_round J ws H llm st))) = executed (srv st)"
proof -
  obtain deltas failure where l: "llm (chatMessages st) = (deltas, failure)" by (cases "llm (chatMessages st)")
  obtain r tcs wr where f: "foldl srv_apply_delta ([], [], written st) deltas = (r, tcs, wr)"
    by (cases "foldl srv_apply_delta ([], [], written st) deltas")
  show ?thesis
    using run_calls_executed[OF assms, of J ws "valid_calls tcs"]
    by (auto simp: server_round_def l f Let_def final_chat_def split: option.splits)
qed

lemma server_loop_executed:
  assumes "\<forall>n h a s. H n = Some h \<longrightarrow> executed (snd (h a s)) = executed s"
  shows "executed (srv (final_chat (server_loop J ws H llm loopCount isDone st))) = executed (srv st)"
  using assms
proof (induction J ws H llm loopCount isDone st rule: server_loop.induct)
  case (1 J ws H llm loopCount isDone st)
  show ?case
  proof (cases "\<not> isDone \<and> loopCount < maxLoops")
    case False
    then show ?thesis by (subst server_loop.simps) (auto simp: final_chat_def)
  next
    case True
    show ?thesis
    proof (cases "server_round J ws H llm st")
      case (Thrown e st')
      with True server_round_executed[OF "1.prems", of J ws llm st] show ?thesis
        by (subst server_loop.simps) (auto simp: final_chat_def)
    next
      case (Continue d st')
      with True server_round_executed[OF "1.prems", of J ws llm st] "1.IH"[OF True Continue "1.prems"]
      show ?thesis
        by (subst server_loop.simps) (auto simp: final_chat_def)
    qed
  qed
qed

lemma agent_chat_executed:
  assumes "\<forall>n h a s. H n = Some h \<longrightarrow> executed (snd (h a s)) = executed s"
  shows "executed (srv (agent_chat J ws prompt H llm sv message history)) = executed sv"
proof -
  let ?st0 = "\<lparr>chatMessages = [Msg_system prompt] @ drop (length history - 10) history @ [Msg_user message],
                 written = [],
                 srv = sv\<lparr>stats := \<lparr>linesWritten = 0, filesModified = {}, filesRead = {}, toolCalls = []\<rparr>\<rparr>,
                 requests = 0\<rparr>"
  from server_loop_executed[OF assms, of J ws llm 0 False ?st0]
  show ?thesis
    by (auto simp: agent_chat_def Let_def final_chat_def split: round_result.splits)
qed


lemma spawns_posts: "spawns (map Post ms) = []"
  by (induction ms) (simp_all add: spawns_def)


























text \<open>
  Two commands of one batch that ask for approval in the same millisecond share their
  identifier: the second resolver replaces the first, so the answer to the card runs the
  second command and the first never goes on, even when the user approves every card;
  the batch never completes.
\<close>

lemma commands_of_one_millisecond:
  \<open>(let pf = \<lparr>pf_JSON_parse = (\<lambda>s. if s = ''{"command":"ls","is_background":false}'' then Some (JFields [(''command'', ''ls'')])
                             else if s = ''{"command":"pwd","is_background":false}'' then Some (JFields [(''command'', ''pwd'')])
                             else None),
       pf_parse_delta = (\<lambda>s. None),
       pf_path_resolve = (\<lambda>r p. r @ ''/'' @ p),
       pf_readDirectory = (\<lambda>d. Inr []),
       pf_query = (\<lambda>n a fs. R_query []),
       pf_os = (\<lambda>c d. Closed [] (Some 0)),
       pf_clock = (\<lambda>n. ''1700000000000''),
       pf_user = (\<lambda>i. Some True),
       pf_pick = (\<lambda>n ks. hd ks),
       pf_fetch = (\<lambda>h. F_abort)\<rparr>;
        st = \<lparr>workspaceFolders = [''/w''], xfiles = Map.empty, securityMode = Secure,
       pendingEdits = [], pendingApprovals = [], approvalsAsked = 0, log = []\<rparr>;
        calls = [\<lparr>xc_id = Some ''c1'', xc_name = ''run_terminal_cmd'',
         xc_arguments = ''{"command":"ls","is_background":false}''\<rparr>,
       \<lparr>xc_id = Some ''c2'', xc_name = ''run_terminal_cmd'',
         xc_arguments = ''{"command":"pwd","is_background":false}''\<rparr>]
    in (fst (run_batch pf st calls), spawns (log (snd (run_batch pf st calls))),
        fst (run_threads pf 0 (snd (start_threads pf 0 st calls)) (fst (start_threads pf 0 st calls)))))
   = (None, [Spawn ''pwd'' ''/w''],
      [T_approval ''1700000000000'', T_done (R_term (TR_Output [] True (Some 0)))])\<close>
  by (simp add: run_batch_def start_thread_def status_label_def begin_tool_def runTerminalCommand_def
        field_def arg_def run_threads.simps ready_def can_go_on_def step_thread_def
        terminalApproval_def proc_chunks_def proc_result_def spawns_def thread_result_def
        update_conv' delete_conv' Let_def)

text \<open>
  With handlers that execute nothing the chat endpoint executes nothing; the server's
  \<open>editFile\<close> handler is one of them.
\<close>

lemma editFile_executes_nothing:
  "executed (snd (editFile sv filePath oldText newText)) = executed sv"
  by (simp add: editFile_def split: sum.splits)

end
